theory Spec2Isabelle
  imports Complex_Main
begin

unbundle bit_operations_syntax

section \<open>iv.c: a terminal image viewer with vi-style navigation\<close>

text \<open>
  The development follows \<^verbatim>\<open>src/iv.c\<close> function by function. Values of the C type
  \<^verbatim>\<open>int\<close> are integers of type \<^typ>\<open>int\<close>; \<^verbatim>\<open>size_t\<close> and \<^verbatim>\<open>unsigned short\<close> values are
  natural numbers. An \<^verbatim>\<open>int\<close> has 32 bits and a \<^verbatim>\<open>size_t\<close> 64. Where the program
  converts an item count to \<^verbatim>\<open>int\<close>, and where it adds or multiplies the selected index,
  a grid position and the column count, which the command line sets to any positive
  \<^verbatim>\<open>int\<close>, the reduction to 32 bits is written out (\<open>to_int\<close>): a result outside the
  range wraps around. The scroll offset is kept between 0 and the number of rows by the
  program itself; its sums and differences are left as they are, and lemma
  \<open>adjust_scroll_in_int_range\<close> at the end shows that they stay in the range of an
  \<^verbatim>\<open>int\<close>. C's division and remainder truncate towards zero; they are written out as
  \<open>c_div\<close> and \<open>c_mod\<close>. The one \<^verbatim>\<open>unsigned int\<close> of the program, in the base64
  encoder, is a natural number reduced modulo \<open>2^32\<close> where the program shifts it. A C
  string is the list of its bytes before the terminating NUL.

  What the operating system and the C library answer is a parameter of the model
  (\<open>env\<close>); what the program reads and writes is a state (\<open>world\<close>) that every
  function passes on. A call of \<^verbatim>\<open>printf\<close> appends to \<open>stdout\<close>, a call of
  \<^verbatim>\<open>fprintf(stderr, ...)\<close> or \<^verbatim>\<open>perror\<close> appends to \<open>stderr\<close>. The standard input is
  the list of the bytes still to come; at its end \<^verbatim>\<open>read\<close> returns 0 and
  \<^verbatim>\<open>read_keypress\<close> returns \<^verbatim>\<open>EOF\<close>.
\<close>

subsection \<open>Configuration (lines 18--40)\<close>

definition THUMB_ROWS :: int where "THUMB_ROWS = 5"
definition THUMB_COLS :: int where "THUMB_COLS = 10"
definition SPACING_ROWS :: int where "SPACING_ROWS = 1"
definition SPACING_COLS :: int where "SPACING_COLS = 2"

subsection \<open>Integers of C\<close>

definition INT_MAX :: int where "INT_MAX = 2147483647"

text \<open>
  The value that a 32-bit \<^verbatim>\<open>int\<close> holds after a conversion or an operation whose
  mathematical result is \<open>x\<close>: \<open>x\<close> itself when it is in the range, otherwise \<open>x\<close>
  reduced modulo \<open>2^32\<close> into \<open>[-2^31, 2^31)\<close>.
\<close>

definition to_int :: "int \<Rightarrow> int" where
  "to_int x = (x + 2147483648) mod 4294967296 - 2147483648"

text \<open>The value of a 64-bit \<^verbatim>\<open>size_t\<close>: reduction modulo \<open>2^64\<close>.\<close>

definition to_size_t :: "int \<Rightarrow> int" where
  "to_size_t x = x mod 18446744073709551616"

text \<open>Division and remainder truncate towards zero.\<close>

definition c_div :: "int \<Rightarrow> int \<Rightarrow> int" where
  "c_div a b = sgn a * sgn b * (\<bar>a\<bar> div \<bar>b\<bar>)"

definition c_mod :: "int \<Rightarrow> int \<Rightarrow> int" where
  "c_mod a b = a - b * c_div a b"

subsection \<open>Vertical scrolling (lines 330--370)\<close>

text \<open>
  The answer of \<^verbatim>\<open>ioctl(STDOUT_FILENO, TIOCGWINSZ, &ws)\<close>: \<open>None\<close> when the call
  fails, otherwise the window size it stored.
\<close>

record winsize =
  ws_row :: nat
  ws_col :: nat

text \<open>Lines 339--342: the terminal rows that the function goes on with.\<close>

definition rows_of :: "winsize option \<Rightarrow> int" where
  "rows_of tty = (case tty of None \<Rightarrow> 24 | Some ws \<Rightarrow> int (ws_row ws))"

text \<open>Lines 345--352: how many grid rows fit on the screen.\<close>

definition visible_rows_of :: "winsize option \<Rightarrow> int" where
  "visible_rows_of tty =
     (let row_height = THUMB_ROWS + SPACING_ROWS;
          row_height = (if row_height < 1 then 1 else row_height);
          visible_rows = c_div (rows_of tty) row_height
      in if visible_rows < 1 then 1 else visible_rows)"

text \<open>
  Line 354 (and 393): \<^verbatim>\<open>int total_rows = (list->count + grid_cols - 1) / grid_cols\<close>.
  The count is a \<^verbatim>\<open>size_t\<close>, so \<open>grid_cols\<close> and 1 are converted to \<^verbatim>\<open>size_t\<close>, the sum,
  the difference and the quotient are those of \<^verbatim>\<open>size_t\<close>, and the quotient is converted
  to \<^verbatim>\<open>int\<close> when it is stored. The caller passes \<open>grid_cols \<ge> 1\<close> (lines 519--528).
\<close>

definition total_rows_of :: "nat \<Rightarrow> int \<Rightarrow> int" where
  "total_rows_of count grid_cols =
     to_int (to_size_t (to_size_t (int count + to_size_t grid_cols) - 1)
             div to_size_t grid_cols)"

text \<open>Lines 357--361: bring the selected row into the window.\<close>

definition scroll_into_view :: "int \<Rightarrow> int \<Rightarrow> int \<Rightarrow> int" where
  "scroll_into_view sel_row visible_rows scroll_offset =
     (if sel_row < scroll_offset then sel_row
      else if sel_row \<ge> scroll_offset + visible_rows then sel_row - visible_rows + 1
      else scroll_offset)"

text \<open>Lines 363--369 (and 394--400): the three clamping statements, in order.\<close>

definition clamp_scroll :: "int \<Rightarrow> int \<Rightarrow> int \<Rightarrow> int" where
  "clamp_scroll total_rows visible_rows scroll_offset =
     (let so = (if scroll_offset < 0 then 0 else scroll_offset);
          so = (if so > total_rows - visible_rows then total_rows - visible_rows else so)
      in if so < 0 then 0 else so)"

text \<open>
  \<^verbatim>\<open>adjust_scroll_for_selection\<close>: the static \<^verbatim>\<open>scroll_offset\<close> is passed in and
  the new value is returned; \<open>count\<close> is \<^verbatim>\<open>list->count\<close>.
\<close>

definition adjust_scroll_for_selection ::
  "winsize option \<Rightarrow> nat \<Rightarrow> int \<Rightarrow> int \<Rightarrow> int \<Rightarrow> int" where
  "adjust_scroll_for_selection tty count selected grid_cols scroll_offset =
     (let visible_rows = visible_rows_of tty;
          total_rows = total_rows_of count grid_cols;
          sel_row = c_div selected grid_cols;
          scroll_offset = scroll_into_view sel_row visible_rows scroll_offset
      in clamp_scroll total_rows visible_rows scroll_offset)"

subsection \<open>The layout computation in the words of the specification\<close>


definition spec_total_rows :: "nat \<Rightarrow> int \<Rightarrow> int" where
  "spec_total_rows item_count columns = \<lceil>real item_count / real_of_int columns\<rceil>"




section \<open>The environment and the state of a run\<close>

datatype file_type = Regular | Directory | Other_file

record env =
  tty_size :: "winsize option"  \<comment> \<open>\<^verbatim>\<open>ioctl(STDOUT_FILENO, TIOCGWINSZ, &ws)\<close>\<close>
  tcgetattr_ok :: bool
  tcsetattr_ok :: bool
  errno_text :: string  \<comment> \<open>the text \<^verbatim>\<open>perror\<close> prints for \<^verbatim>\<open>errno\<close>\<close>
  alloc_ok :: "nat \<Rightarrow> bool"  \<comment> \<open>whether a request for that many bytes is granted\<close>
  stat_type :: "string \<Rightarrow> file_type option"  \<comment> \<open>\<^verbatim>\<open>stat\<close>; \<open>None\<close> when it fails\<close>
  dir_entries :: "string \<Rightarrow> string list option"
    \<comment> \<open>\<^verbatim>\<open>opendir\<close> and the names \<^verbatim>\<open>readdir\<close> yields; \<open>None\<close> when \<^verbatim>\<open>opendir\<close> fails\<close>
  shell :: "string \<Rightarrow> int"  \<comment> \<open>the status \<^verbatim>\<open>system\<close> returns\<close>
  atoi :: "string \<Rightarrow> int"

record world =
  stdin :: string  \<comment> \<open>the bytes not yet read; at its end \<^verbatim>\<open>read\<close> returns 0\<close>
  stdout :: string
  stderr :: string
  scroll_offset :: int  \<comment> \<open>the static variable of line 330\<close>
  raw_mode :: bool
  removed :: "string list"  \<comment> \<open>the paths handed to \<^verbatim>\<open>remove\<close>\<close>

definition ESC :: char where "ESC = CHR 0x1B"
definition BACKSLASH :: char where "BACKSLASH = CHR 0x5C"
definition NEWLINE :: char where "NEWLINE = CHR 0x0A"
definition RETURN :: char where "RETURN = CHR 0x0D"
definition DQUOTE :: char where "DQUOTE = CHR 0x22"

definition EOF :: int where "EOF = - 1"
definition EXIT_FAILURE :: int where "EXIT_FAILURE = 1"

definition print_out :: "string \<Rightarrow> world \<Rightarrow> world" where
  "print_out s w = w\<lparr>stdout := stdout w @ s\<rparr>"

definition print_err :: "string \<Rightarrow> world \<Rightarrow> world" where
  "print_err s w = w\<lparr>stderr := stderr w @ s\<rparr>"

definition perror :: "env \<Rightarrow> string \<Rightarrow> world \<Rightarrow> world" where
  "perror e s w = print_err (s @ '': '' @ errno_text e @ [NEWLINE]) w"

text \<open>The conversion \<^verbatim>\<open>%d\<close> of \<^verbatim>\<open>printf\<close>.\<close>

definition digit :: "nat \<Rightarrow> char" where
  "digit n = ''0123456789'' ! n"

function decimal :: "nat \<Rightarrow> string" where
  "decimal n = (if n < 10 then [digit n] else decimal (n div 10) @ [digit (n mod 10)])"
  by pat_completeness auto
termination
  by (relation "measure id") auto

declare decimal.simps [simp del]

definition printf_d :: "int \<Rightarrow> string" where
  "printf_d i = (if i < 0 then CHR ''-'' # decimal (nat (- i)) else decimal (nat i))"

text \<open>\<^verbatim>\<open>snprintf(buf, n, ...)\<close> keeps at most \<open>n - 1\<close> bytes of the text.\<close>

definition snprintf :: "nat \<Rightarrow> string \<Rightarrow> string" where
  "snprintf n s = take (n - 1) s"

section \<open>Terminal raw mode (lines 59--102)\<close>

definition disable_raw_mode :: "world \<Rightarrow> world" where
  "disable_raw_mode w = w\<lparr>raw_mode := False\<rparr>"

text \<open>\<open>Inl\<close> carries the status of \<^verbatim>\<open>exit\<close>.\<close>

definition enable_raw_mode :: "env \<Rightarrow> world \<Rightarrow> (int \<times> world) + world" where
  "enable_raw_mode e w =
     (if \<not> tcgetattr_ok e then Inl (EXIT_FAILURE, perror e ''tcgetattr'' w)
      else if \<not> tcsetattr_ok e then Inl (EXIT_FAILURE, perror e ''tcsetattr'' w)
      else Inr (w\<lparr>raw_mode := True\<rparr>))"

definition read_keypress :: "world \<Rightarrow> int \<times> world" where
  "read_keypress w =
     (case stdin w of
        [] \<Rightarrow> (EOF, w)
      | ch # rest \<Rightarrow> (of_char ch, w\<lparr>stdin := rest\<rparr>))"

section \<open>Image loading (lines 105--164)\<close>

record ImageEntry =
  original_path :: string
  thumb_path :: "string option"  \<comment> \<open>\<open>None\<close> is \<^verbatim>\<open>NULL\<close>\<close>
  generated :: bool

text \<open>
  An \<^verbatim>\<open>ImageList\<close> is the list of its entries, \<^verbatim>\<open>count\<close> its length. The size of
  an \<^verbatim>\<open>ImageEntry\<close> is 24 bytes. The result of \<^verbatim>\<open>strdup\<close> in line 115 is not
  checked by the program; the model covers the runs in which it succeeds.
\<close>

type_synonym ImageList = "ImageEntry list"

definition sizeof_ImageEntry :: nat where "sizeof_ImageEntry = 24"

definition add_image_entry ::
  "env \<Rightarrow> ImageList \<Rightarrow> string \<Rightarrow> world \<Rightarrow> (int \<times> world) + (ImageList \<times> world)" where
  "add_image_entry e list path w =
     (if \<not> alloc_ok e (sizeof_ImageEntry * (length list + 1))
      then Inl (EXIT_FAILURE, print_err (''Out of memory.'' @ [NEWLINE]) w)
      else Inr (list @ [\<lparr>original_path = path, thumb_path = None, generated = False\<rparr>], w))"

text \<open>The loop of lines 140--152 over the names that \<^verbatim>\<open>readdir\<close> yields.\<close>

fun load_dir_entries ::
  "env \<Rightarrow> string \<Rightarrow> string list \<Rightarrow> ImageList \<Rightarrow> world \<Rightarrow> (int \<times> world) + (ImageList \<times> world)"
where
  "load_dir_entries e dir_path [] list w = Inr (list, w)"
| "load_dir_entries e dir_path (d_name # names) list w =
     (if take 1 d_name = ''.'' then load_dir_entries e dir_path names list w
      else
        (let fullpath = snprintf 4096 (dir_path @ ''/'' @ d_name)
         in if stat_type e fullpath = Some Regular
            then (case add_image_entry e list fullpath w of
                    Inl ex \<Rightarrow> Inl ex
                  | Inr (list', w') \<Rightarrow> load_dir_entries e dir_path names list' w')
            else load_dir_entries e dir_path names list w))"

text \<open>
  \<^verbatim>\<open>load_images_from_dir\<close>: \<open>Inl\<close> is an \<^verbatim>\<open>exit\<close>; otherwise the returned \<^verbatim>\<open>int\<close>
  comes with the list and the state.
\<close>

definition load_images_from_dir ::
  "env \<Rightarrow> string \<Rightarrow> ImageList \<Rightarrow> world \<Rightarrow> (int \<times> world) + (int \<times> ImageList \<times> world)" where
  "load_images_from_dir e dir_path list w =
     (case dir_entries e dir_path of
        None \<Rightarrow> Inr (- 1, list, perror e ''opendir'' w)
      | Some names \<Rightarrow>
          (case load_dir_entries e dir_path names list w of
             Inl ex \<Rightarrow> Inl ex
           | Inr (list', w') \<Rightarrow> Inr (0, list', w')))"

fun load_images_from_argv ::
  "env \<Rightarrow> string list \<Rightarrow> ImageList \<Rightarrow> world \<Rightarrow> (int \<times> world) + (ImageList \<times> world)" where
  "load_images_from_argv e [] list w = Inr (list, w)"
| "load_images_from_argv e (p # paths) list w =
     (case add_image_entry e list p w of
        Inl ex \<Rightarrow> Inl ex
      | Inr (list', w') \<Rightarrow> load_images_from_argv e paths list' w')"

section \<open>Thumbnail and focus generation (lines 167--230)\<close>

definition TMP_DIR :: string where "TMP_DIR = ''/tmp''"
definition THUMB_PIXEL_WIDTH :: int where "THUMB_PIXEL_WIDTH = 180"
definition THUMB_PIXEL_HEIGHT :: int where "THUMB_PIXEL_HEIGHT = 120"
definition FOCUS_WIDTH :: int where "FOCUS_WIDTH = 800"
definition FOCUS_HEIGHT :: int where "FOCUS_HEIGHT = 600"

text \<open>Lines 175--179: the part of the path after its last slash.\<close>

definition file_name :: "string \<Rightarrow> string" where
  "file_name orig =
     (if CHR ''/'' \<in> set orig then rev (takeWhile (\<lambda>c. c \<noteq> CHR ''/'') (rev orig)) else orig)"

definition magick_cmd :: "string \<Rightarrow> int \<Rightarrow> int \<Rightarrow> string \<Rightarrow> string" where
  "magick_cmd orig width height tmp =
     snprintf 8192 (''magick convert '' @ [DQUOTE] @ orig @ [DQUOTE] @ '' -resize ''
       @ printf_d width @ ''x'' @ printf_d height @ '' -auto-orient -filter Lanczos ''
       @ [DQUOTE] @ tmp @ [DQUOTE])"

text \<open>
  Both generators return \<open>None\<close> for the C result \<open>-1\<close>, and the path they stored
  for the C result \<open>0\<close>.
\<close>

definition generate_thumbnail :: "env \<Rightarrow> string \<Rightarrow> world \<Rightarrow> string option \<times> world" where
  "generate_thumbnail e orig w =
     (let fname = file_name orig;
          tmp = snprintf 4096 (TMP_DIR @ ''/iv_'' @ fname @ ''.thumb.png'');
          cmd = magick_cmd orig THUMB_PIXEL_WIDTH THUMB_PIXEL_HEIGHT tmp
      in if shell e cmd \<noteq> 0
         then (None, print_err (''Failed to create thumbnail for '' @ orig @ [NEWLINE]) w)
         else if \<not> alloc_ok e (length tmp + 1)
         then (None, print_err (''Out of memory duplicating thumb path.'' @ [NEWLINE]) w)
         else (Some tmp, w))"

definition generate_focus :: "env \<Rightarrow> string \<Rightarrow> world \<Rightarrow> string option \<times> world" where
  "generate_focus e orig w =
     (let fname = file_name orig;
          tmp = snprintf 4096 (TMP_DIR @ ''/iv_'' @ fname @ ''.focus.png'');
          cmd = magick_cmd orig FOCUS_WIDTH FOCUS_HEIGHT tmp
      in if shell e cmd \<noteq> 0
         then (None, print_err (''Failed to create focus image for '' @ orig @ [NEWLINE]) w)
         else if \<not> alloc_ok e (length tmp + 1)
         then (None, print_err (''Out of memory for focus path.'' @ [NEWLINE]) w)
         else (Some tmp, w))"

section \<open>The kitty graphics protocol (lines 233--325)\<close>

definition tbl :: string where
  "tbl = ''ABCDEFGHIJKLMNOPQRSTUVWXYZabcdefghijklmnopqrstuvwxyz0123456789+/''"

text \<open>
  Lines 250--257, the loop over \<open>n = 0, 1, 2\<close>: \<open>v\<close> is an \<^verbatim>\<open>unsigned int\<close> of 32
  bits, \<open>inp\<close> the bytes of the path from index \<open>i\<close> on, so that \<^verbatim>\<open>i < len\<close> says
  that \<open>inp\<close> is not empty.
\<close>

function gather3 :: "nat \<Rightarrow> nat \<Rightarrow> nat \<Rightarrow> string \<Rightarrow> nat \<times> nat \<times> string" where
  "gather3 n v pad inp =
     (if n < 3 then
        (let v = push_bit 8 v mod 2 ^ 32
         in case inp of
              [] \<Rightarrow> gather3 (n + 1) v (pad + 1) []
            | ch # rest \<Rightarrow> gather3 (n + 1) (v OR of_char ch) pad rest)
      else (v, pad, inp))"
  by pat_completeness auto
termination
  by (relation "measure (\<lambda>(n, v, pad, inp). 3 - n)") auto

declare gather3.simps [simp del]

text \<open>Lines 247--270: one group of four characters for every turn of the loop.\<close>

function b64_loop :: "string \<Rightarrow> string" where
  "b64_loop inp =
     (if inp \<noteq> [] then
        (case gather3 0 0 0 inp of
           (v, pad, rest) \<Rightarrow>
             [tbl ! (drop_bit 18 v AND 0x3F),
              tbl ! (drop_bit 12 v AND 0x3F),
              (if pad < 2 then tbl ! (drop_bit 6 v AND 0x3F) else CHR ''=''),
              (if pad < 1 then tbl ! (v AND 0x3F) else CHR ''='')]
             @ b64_loop rest)
      else [])"
  by pat_completeness auto
termination
proof (relation "measure length")
  show "wf (measure length)" by simp
next
  fix inp :: string and v y pad rest
  assume "inp \<noteq> []" and "(v, y) = gather3 0 0 0 inp" and "(pad, rest) = y"
  then have r: "rest = snd (snd (gather3 0 0 0 inp))" by (metis snd_conv)
  have "snd (snd (gather3 n v pad inp)) = drop (3 - n) inp" for n v pad inp
  proof (induction n v pad inp rule: gather3.induct)
    case (1 n v pad inp)
    show ?case
    proof (cases "n < 3")
      case True
      then have d: "3 - n = Suc (3 - (n + 1))" by simp
      show ?thesis
      proof (cases inp)
        case Nil
        with True 1(1) [OF True refl Nil] show ?thesis
          by (subst gather3.simps) simp
      next
        case (Cons ch rest)
        with True 1(2) [OF True refl Cons] show ?thesis
          by (subst gather3.simps) (simp add: d del: One_nat_def)
      qed
    next
      case False
      then show ?thesis by (subst gather3.simps) simp
    qed
  qed
  with r have "rest = drop 3 inp" by simp
  with \<open>inp \<noteq> []\<close> show "(rest, inp) \<in> measure length" by simp
qed

declare b64_loop.simps [simp del]

text \<open>\<^verbatim>\<open>b64encode_path\<close>: \<open>None\<close> is the \<^verbatim>\<open>NULL\<close> returned when \<^verbatim>\<open>calloc\<close> fails.\<close>

definition b64encode_path :: "env \<Rightarrow> string \<Rightarrow> string option" where
  "b64encode_path e path =
     (let len = length path;
          outlen = 4 * ((len + 2) div 3)
      in if \<not> alloc_ok e (outlen + 1) then None else Some (b64_loop path))"

definition kitty_display :: "int \<Rightarrow> int \<Rightarrow> string \<Rightarrow> string" where
  "kitty_display c r b64 =
     [ESC] @ ''_Ga=T,f=100,t=f,c='' @ printf_d c @ '',r='' @ printf_d r @ '',C=1;'' @ b64
       @ [ESC, BACKSLASH]"

definition display_thumbnail_kitty :: "env \<Rightarrow> string option \<Rightarrow> world \<Rightarrow> world" where
  "display_thumbnail_kitty e thumb w =
     (case thumb of
        None \<Rightarrow> print_out ''[?]'' w
      | Some path \<Rightarrow>
          (case b64encode_path e path of
             None \<Rightarrow> print_out ''[b64-fail]'' w
           | Some b64 \<Rightarrow> print_out (kitty_display THUMB_COLS THUMB_ROWS b64) w))"

definition display_focus_kitty :: "env \<Rightarrow> string option \<Rightarrow> world \<Rightarrow> world" where
  "display_focus_kitty e focus_path w =
     (case focus_path of
        None \<Rightarrow> w
      | Some path \<Rightarrow>
          (let c = 80; r = 24
           in case b64encode_path e path of
                None \<Rightarrow> w
              | Some b64 \<Rightarrow> print_out (kitty_display c r b64) w))"

definition kitty_delete_all :: "world \<Rightarrow> world" where
  "kitty_delete_all w = print_out ([ESC] @ ''_Ga=d'' @ [ESC, BACKSLASH]) w"

section \<open>Rendering the grid (lines 372--452)\<close>

definition clear_home :: string where
  "clear_home = [ESC] @ ''[2J'' @ [ESC] @ ''[H''"

definition cursor_to :: "int \<Rightarrow> int \<Rightarrow> string" where
  "cursor_to r c = [ESC] @ ''['' @ printf_d r @ '';'' @ printf_d c @ ''H''"

text \<open>Line 413: \<^verbatim>\<open>int i = row * grid_cols + col\<close>, the index of the item at a grid position.\<close>

definition item_index :: "int \<Rightarrow> int \<Rightarrow> int \<Rightarrow> int" where
  "item_index row col grid_cols = to_int (to_int (row * grid_cols) + col)"

text \<open>
  Lines 412--431, the loop over \<open>col\<close>. The rows start at the clamped offset, so
  \<open>i\<close> is not negative when an entry is read, unless the index wrapped around.
\<close>

function render_cells ::
  "env \<Rightarrow> ImageList \<Rightarrow> int \<Rightarrow> int \<Rightarrow> int \<Rightarrow> int \<Rightarrow> int \<Rightarrow> world \<Rightarrow> world" where
  "render_cells e list grid_cols selected start_row row col w =
     (if col < grid_cols then
        (let i = item_index row col grid_cols
         in if i \<ge> to_int (int (length list)) then w
            else
              (let row_height = THUMB_ROWS + SPACING_ROWS;
                   col_width = THUMB_COLS + SPACING_COLS;
                   screen_row = to_int (to_int (to_int (row - start_row) * row_height) + 1);
                   screen_col = to_int (to_int (col * col_width) + 1);
                   w = print_out (cursor_to screen_row screen_col) w;
                   w = display_thumbnail_kitty e (thumb_path (list ! nat i)) w;
                   w = (if i = selected then
                          (let star_row = to_int (screen_row + THUMB_ROWS);
                               star_col = to_int (screen_col + c_div THUMB_COLS 2)
                           in print_out (cursor_to star_row star_col @ ''*'') w)
                        else w)
               in render_cells e list grid_cols selected start_row row (col + 1) w))
      else w)"
  by pat_completeness auto
termination
  by (relation "measure (\<lambda>(e, list, grid_cols, selected, start_row, row, col, w).
        nat (grid_cols - col))") auto

declare render_cells.simps [simp del]

text \<open>Lines 411--432, the loop over \<open>row\<close>.\<close>

function render_rows ::
  "env \<Rightarrow> ImageList \<Rightarrow> int \<Rightarrow> int \<Rightarrow> int \<Rightarrow> int \<Rightarrow> int \<Rightarrow> world \<Rightarrow> world" where
  "render_rows e list grid_cols selected start_row end_row row w =
     (if row < end_row then
        render_rows e list grid_cols selected start_row end_row (row + 1)
          (render_cells e list grid_cols selected start_row row 0 w)
      else w)"
  by pat_completeness auto
termination
  by (relation "measure (\<lambda>(e, list, grid_cols, selected, start_row, end_row, row, w).
        nat (end_row - row))") auto

declare render_rows.simps [simp del]

definition render_grid :: "env \<Rightarrow> ImageList \<Rightarrow> int \<Rightarrow> int \<Rightarrow> world \<Rightarrow> world" where
  "render_grid e list grid_cols selected w =
     (let ws_row = rows_of (tty_size e);
          row_height = THUMB_ROWS + SPACING_ROWS;
          visible_rows = c_div ws_row row_height;
          visible_rows = (if visible_rows < 1 then 1 else visible_rows);
          total_rows = total_rows_of (length list) grid_cols;
          w = w\<lparr>scroll_offset := clamp_scroll total_rows visible_rows (scroll_offset w)\<rparr>;
          w = print_out clear_home w;
          start_row = scroll_offset w;
          end_row = to_int (scroll_offset w + visible_rows);
          end_row = (if end_row > total_rows then total_rows else end_row);
          w = render_rows e list grid_cols selected start_row end_row start_row w;
          bottom_line = to_int (to_int (visible_rows * row_height) + 1);
          w = (if bottom_line < ws_row then print_out (cursor_to bottom_line 1) w
               else print_out (cursor_to ws_row 1) w);
          w = (if selected \<ge> 0 \<and> selected < to_int (int (length list))
               then print_out (''Selected: '' @ original_path (list ! nat selected) @ [NEWLINE]) w
               else print_out [NEWLINE] w)
      in print_out (''[h/l/j/k: move | Enter=focus | q=quit]'' @ [NEWLINE]) w)"

section \<open>The focus view (lines 455--481)\<close>

text \<open>Lines 470--475: read until ESC, \<open>q\<close> or the end of the input.\<close>

function focus_wait :: "world \<Rightarrow> world" where
  "focus_wait w =
     (case read_keypress w of
        (ch, w') \<Rightarrow>
          if ch = 27 \<or> ch = of_char (CHR ''q'') \<or> ch = EOF then w' else focus_wait w')"
  by pat_completeness auto
termination
proof (relation "measure (\<lambda>w. length (stdin w))")
  show "wf (measure (\<lambda>w. length (stdin w)))" by simp
next
  fix w :: world and ch w'
  assume "(ch, w') = read_keypress w"
    and "\<not> (ch = 27 \<or> ch = of_char (CHR ''q'') \<or> ch = EOF)"
  then show "(w', w) \<in> measure (\<lambda>w. length (stdin w))"
    by (cases "stdin w") (auto simp: read_keypress_def)
qed

declare focus_wait.simps [simp del]

definition focus_view :: "env \<Rightarrow> string \<Rightarrow> world \<Rightarrow> world" where
  "focus_view e orig_path w =
     (case generate_focus e orig_path w of
        (None, w) \<Rightarrow> w
      | (Some focus_path, w) \<Rightarrow>
          (let w = print_out clear_home w;
               w = display_focus_kitty e (Some focus_path) w;
               w = focus_wait w
           in w\<lparr>removed := removed w @ [focus_path]\<rparr>))"

section \<open>Cleanup (lines 484--511)\<close>

text \<open>
  \<^verbatim>\<open>remove_thumbnails\<close>; \<^verbatim>\<open>free_imagelist\<close> only releases memory and leaves no
  trace in the state.
\<close>

fun remove_thumbnails :: "ImageList \<Rightarrow> world \<Rightarrow> world" where
  "remove_thumbnails [] w = w"
| "remove_thumbnails (x # xs) w =
     remove_thumbnails xs
       (case thumb_path x of
          Some p \<Rightarrow> if generated x then w\<lparr>removed := removed w @ [p]\<rparr> else w
        | None \<Rightarrow> w)"

section \<open>The main program (lines 514--626)\<close>

datatype ViewerMode = MODE_GRID | MODE_FOCUS

text \<open>The local variables of \<^verbatim>\<open>main\<close> that the loop changes.\<close>

record viewer =
  mode :: ViewerMode
  selected :: int
  running :: bool

text \<open>
  What \<^verbatim>\<open>getopt(argc, argv, "c:")\<close> returns, call by call, until it returns \<open>-1\<close>:
  the option \<open>c\<close> with its argument, or anything else, with the message that
  \<^verbatim>\<open>getopt\<close> itself wrote to standard error. The arguments from \<^verbatim>\<open>optind\<close> on are
  the positional arguments.
\<close>

datatype getopt_result = is_Opt_c: Opt_c string | Opt_other string

definition usage :: "string \<Rightarrow> string" where
  "usage argv0 =
     ''Usage: '' @ argv0 @ '' [-c columns] [directory or imagefiles...]'' @ [NEWLINE]"

text \<open>Lines 519--533; \<open>Inl\<close> carries the status of \<^verbatim>\<open>exit\<close>.\<close>

fun parse_options ::
  "env \<Rightarrow> string \<Rightarrow> getopt_result list \<Rightarrow> int \<Rightarrow> world \<Rightarrow> (int \<times> world) + (int \<times> world)"
where
  "parse_options e argv0 [] grid_cols w = Inr (grid_cols, w)"
| "parse_options e argv0 (Opt_c optarg # opts) grid_cols w =
     (let grid_cols = atoi e optarg;
          grid_cols = (if grid_cols < 1 then 4 else grid_cols)
      in parse_options e argv0 opts grid_cols w)"
| "parse_options e argv0 (Opt_other msg # opts) grid_cols w =
     Inl (EXIT_FAILURE, print_err (usage argv0) (print_err msg w))"

text \<open>Lines 561--566.\<close>

fun generate_thumbnails :: "env \<Rightarrow> ImageList \<Rightarrow> world \<Rightarrow> ImageList \<times> world" where
  "generate_thumbnails e [] w = ([], w)"
| "generate_thumbnails e (x # xs) w =
     (case generate_thumbnail e (original_path x) w of
        (None, w') \<Rightarrow>
          (case generate_thumbnails e xs w' of (ys, w'') \<Rightarrow> (x # ys, w''))
      | (Some thumb, w') \<Rightarrow>
          (case generate_thumbnails e xs w' of
             (ys, w'') \<Rightarrow> (x\<lparr>thumb_path := Some thumb, generated := True\<rparr> # ys, w'')))"

text \<open>
  Lines 580--602: what a key does in grid mode. \<open>selected\<close> and \<open>grid_cols\<close> are
  \<^verbatim>\<open>int\<close>s, and \<^verbatim>\<open>(int)list.count\<close> converts the count; every sum and difference is
  that of \<^verbatim>\<open>int\<close>.
\<close>

definition grid_key :: "ImageList \<Rightarrow> int \<Rightarrow> int \<Rightarrow> viewer \<Rightarrow> viewer" where
  "grid_key list grid_cols ch s =
     (if ch = EOF then s\<lparr>running := False\<rparr>
      else if ch = of_char (CHR ''q'') then s\<lparr>running := False\<rparr>
      else if ch = of_char (CHR ''h'') then
        (if c_mod (selected s) grid_cols > 0
         then s\<lparr>selected := to_int (selected s - 1)\<rparr> else s)
      else if ch = of_char (CHR ''l'') then
        (if to_int (selected s + 1) < to_int (int (length list))
            \<and> c_mod (selected s) grid_cols < to_int (grid_cols - 1)
         then s\<lparr>selected := to_int (selected s + 1)\<rparr> else s)
      else if ch = of_char (CHR ''k'') then
        (if to_int (selected s - grid_cols) \<ge> 0
         then s\<lparr>selected := to_int (selected s - grid_cols)\<rparr> else s)
      else if ch = of_char (CHR ''j'') then
        (if to_int (selected s + grid_cols) < to_int (int (length list))
         then s\<lparr>selected := to_int (selected s + grid_cols)\<rparr> else s)
      else if ch = of_char NEWLINE \<or> ch = of_char RETURN then s\<lparr>mode := MODE_FOCUS\<rparr>
      else s)"

text \<open>Lines 575--610: one turn of the loop.\<close>

definition loop_body ::
  "env \<Rightarrow> ImageList \<Rightarrow> int \<Rightarrow> viewer \<times> world \<Rightarrow> viewer \<times> world" where
  "loop_body e list grid_cols sw =
     (case sw of
        (s, w) \<Rightarrow>
          if mode s = MODE_GRID then
            (let w = w\<lparr>scroll_offset :=
                       adjust_scroll_for_selection (tty_size e) (length list) (selected s)
                         grid_cols (scroll_offset w)\<rparr>;
                 w = render_grid e list grid_cols (selected s) w
             in case read_keypress w of (ch, w) \<Rightarrow> (grid_key list grid_cols ch s, w))
          else
            (let w = focus_view e (original_path (list ! nat (selected s))) w
             in (s\<lparr>mode := MODE_GRID\<rparr>, w)))"

text \<open>
  The number of turns the loop can still take is bounded by the bytes left on the
  input: a turn in grid mode reads one, or meets the end and stops; a turn in focus
  mode is followed by one in grid mode.
\<close>

definition turns_left :: "viewer \<times> world \<Rightarrow> nat" where
  "turns_left sw =
     (case sw of
        (s, w) \<Rightarrow>
          if running s then 2 * length (stdin w) + (if mode s = MODE_FOCUS then 2 else 1)
          else 0)"

function main_loop ::
  "env \<Rightarrow> ImageList \<Rightarrow> int \<Rightarrow> viewer \<times> world \<Rightarrow> viewer \<times> world" where
  "main_loop e list grid_cols sw =
     (if running (fst sw) then main_loop e list grid_cols (loop_body e list grid_cols sw)
      else sw)"
  by pat_completeness auto
termination
proof (relation "measure (\<lambda>(e, list, grid_cols, sw). turns_left sw)")
  show "wf (measure (\<lambda>(e, list, grid_cols, sw). turns_left sw))" by simp
next
  fix e :: env and list :: ImageList and grid_cols :: int and sw :: "viewer \<times> world"
  assume run: "running (fst sw)"
  obtain s w where sw: "sw = (s, w)" by (cases sw)
  have out: "stdin (print_out t w) = stdin w" for t w
    by (simp add: print_out_def)
  have thumb: "stdin (display_thumbnail_kitty e' t w) = stdin w" for e' t w
    by (simp add: display_thumbnail_kitty_def out split: option.splits)
  have cells: "stdin (render_cells e' l g sel sr row col w) = stdin w"
    for e' l g sel sr row col w
  proof (induction e' l g sel sr row col w rule: render_cells.induct)
    case (1 e' list g sel sr row col w)
    show ?case
    proof (cases "col < g \<and> \<not> item_index row col g \<ge> to_int (int (length list))")
      case True
      then show ?thesis
        using 1 [OF _ refl _ refl refl refl refl refl refl refl]
        by (subst render_cells.simps) (simp add: Let_def out thumb)
    next
      case False
      then show ?thesis by (subst render_cells.simps) (auto simp: Let_def)
    qed
  qed
  have rows: "stdin (render_rows e' l g sel sr er row w) = stdin w"
    for e' l g sel sr er row w
  proof (induction e' l g sel sr er row w rule: render_rows.induct)
    case (1 e' list g sel sr er row w)
    then show ?case by (subst render_rows.simps) (simp add: cells)
  qed
  have grid: "stdin (render_grid e list g sel w) = stdin w" for g sel w
    by (simp add: render_grid_def Let_def out rows)
  have wait: "length (stdin (focus_wait w)) \<le> length (stdin w)" for w
  proof (induction w rule: focus_wait.induct)
    case (1 w)
    show ?case
    proof (cases "stdin w")
      case Nil
      then show ?thesis by (subst focus_wait.simps) (simp add: read_keypress_def EOF_def)
    next
      case (Cons ch rest)
      then have "read_keypress w = (of_char ch, w\<lparr>stdin := rest\<rparr>)"
        by (simp add: read_keypress_def)
      with Cons 1 [OF this [symmetric]] show ?thesis
        by (subst focus_wait.simps) auto
    qed
  qed
  have focus: "length (stdin (focus_view e p w)) \<le> length (stdin w)" for p w
    using wait [of "display_focus_kitty e (Some (the (fst (generate_focus e p w))))
        (print_out clear_home (snd (generate_focus e p w)))"]
    by (auto simp: focus_view_def generate_focus_def Let_def print_out_def print_err_def
        display_focus_kitty_def split: option.splits prod.splits if_splits)
  show "((e, list, grid_cols, loop_body e list grid_cols sw), (e, list, grid_cols, sw))
      \<in> measure (\<lambda>(e, list, grid_cols, sw). turns_left sw)"
  proof (cases "mode s")
    case MODE_GRID
    then show ?thesis
      using run sw
      by (cases "stdin w")
        (auto simp: loop_body_def turns_left_def Let_def read_keypress_def grid grid_key_def
          split: prod.splits if_splits)
  next
    case MODE_FOCUS
    then show ?thesis
      using run sw focus [of "original_path (list ! nat (selected s))" w]
      by (simp add: loop_body_def turns_left_def Let_def)
  qed
qed

declare main_loop.simps [simp del]

definition initial_viewer :: viewer where
  "initial_viewer = \<lparr>mode = MODE_GRID, selected = 0, running = True\<rparr>"

text \<open>
  The state in which a run begins: nothing written, the static \<^verbatim>\<open>scroll_offset\<close>
  at 0.
\<close>

definition initial_world :: "string \<Rightarrow> world" where
  "initial_world inp =
     \<lparr>stdin = inp, stdout = [], stderr = [], scroll_offset = 0, raw_mode = False,
      removed = []\<rparr>"

text \<open>Lines 544--554; \<open>Inl\<close> carries the status with which the program ends.\<close>

definition load_images ::
  "env \<Rightarrow> string list \<Rightarrow> world \<Rightarrow> (int \<times> world) + (ImageList \<times> world)" where
  "load_images e args w =
     (if stat_type e (hd args) = Some Directory then
        (case load_images_from_dir e (hd args) [] w of
           Inl ex \<Rightarrow> Inl ex
         | Inr (rc, list, w) \<Rightarrow>
             if rc \<noteq> 0 then Inl (1, print_err (''Could not read directory.'' @ [NEWLINE]) w)
             else Inr (list, w))
      else load_images_from_argv e args [] w)"

text \<open>
  \<^verbatim>\<open>main\<close>, from the outcome of \<^verbatim>\<open>getopt\<close>, the positional arguments and the
  bytes of the standard input to the exit status and the final state.
\<close>

definition main ::
  "env \<Rightarrow> string \<Rightarrow> getopt_result list \<Rightarrow> string list \<Rightarrow> string \<Rightarrow> int \<times> world" where
  "main e argv0 opts args inp =
     (case parse_options e argv0 opts 4 (initial_world inp) of
        Inl ex \<Rightarrow> ex
      | Inr (grid_cols, w) \<Rightarrow>
          if args = [] then (EXIT_FAILURE, print_err (usage argv0) w)
          else
            (case load_images e args w of
               Inl ex \<Rightarrow> ex
             | Inr (list, w) \<Rightarrow>
                 if length list = 0 then (1, print_err (''No images found.'' @ [NEWLINE]) w)
                 else
                   (case generate_thumbnails e list w of
                      (list, w) \<Rightarrow>
                        (case enable_raw_mode e w of
                           Inl ex \<Rightarrow> ex
                         | Inr w \<Rightarrow>
                             (case main_loop e list grid_cols (initial_viewer, w) of
                                (s, w) \<Rightarrow>
                                  (let w = disable_raw_mode w;
                                       w = kitty_delete_all w;
                                       w = remove_thumbnails list w;
                                       w = print_out clear_home w
                                   in (0, w)))))))"

section \<open>Base64 and the payload of a control sequence, as the terminal reads them\<close>

text \<open>
  Section 4.2 of the specification asks for standard base64: the alphabet
  \<open>A-Z a-z 0-9 + /\<close>, \<open>=\<close> padding, no line wrapping. Three bytes are read as one
  number of 24 bits whose four digits in base 64 select the characters; a last group
  of one or two bytes is filled with zero bits on the right, and \<open>=\<close> stands for
  each character that would carry no bit of the input.
\<close>

definition b64_alphabet :: string where
  "b64_alphabet = ''ABCDEFGHIJKLMNOPQRSTUVWXYZ'' @ ''abcdefghijklmnopqrstuvwxyz''
     @ ''0123456789'' @ ''+/''"

definition b64_digit :: "nat \<Rightarrow> nat \<Rightarrow> char" where
  "b64_digit n k = b64_alphabet ! (n div 64 ^ k mod 64)"

fun std_b64encode :: "string \<Rightarrow> string" where
  "std_b64encode [] = []"
| "std_b64encode [a] =
     (let n = of_char a * 65536
      in [b64_digit n 3, b64_digit n 2, CHR ''='', CHR ''=''])"
| "std_b64encode [a, b] =
     (let n = of_char a * 65536 + of_char b * 256
      in [b64_digit n 3, b64_digit n 2, b64_digit n 1, CHR ''=''])"
| "std_b64encode (a # b # c # rest) =
     (let n = of_char a * 65536 + of_char b * 256 + of_char c
      in [b64_digit n 3, b64_digit n 2, b64_digit n 1, b64_digit n 0] @ std_b64encode rest)"

text \<open>The value of a character of the alphabet; \<open>None\<close> for any other character.\<close>

fun index_of :: "char \<Rightarrow> string \<Rightarrow> nat option" where
  "index_of c [] = None"
| "index_of c (x # xs) = (if c = x then Some 0 else map_option Suc (index_of c xs))"

definition b64_value :: "char \<Rightarrow> nat option" where
  "b64_value c = index_of c b64_alphabet"

text \<open>
  One group of four characters gives three bytes, or two before one \<open>=\<close>, or one
  before two.
\<close>

definition decode_quad :: "char \<Rightarrow> char \<Rightarrow> char \<Rightarrow> char \<Rightarrow> string option" where
  "decode_quad a b c d =
     (case (b64_value a, b64_value b) of
        (Some x, Some y) \<Rightarrow>
          if c = CHR ''='' \<and> d = CHR ''='' then Some [char_of ((x * 64 + y) div 16)]
          else
            (case b64_value c of
               None \<Rightarrow> None
             | Some z \<Rightarrow>
                 if d = CHR ''=''
                 then Some [char_of (((x * 64 + y) * 64 + z) div 1024),
                            char_of (((x * 64 + y) * 64 + z) div 4)]
                 else
                   (case b64_value d of
                      None \<Rightarrow> None
                    | Some u \<Rightarrow>
                        Some [char_of ((((x * 64 + y) * 64 + z) * 64 + u) div 65536),
                              char_of ((((x * 64 + y) * 64 + z) * 64 + u) div 256),
                              char_of ((((x * 64 + y) * 64 + z) * 64 + u))]))
      | _ \<Rightarrow> None)"

fun std_b64decode :: "string \<Rightarrow> string option" where
  "std_b64decode [] = Some []"
| "std_b64decode (a # b # c # d # rest) =
     (case decode_quad a b c d of
        None \<Rightarrow> None
      | Some bytes \<Rightarrow>
          if rest = [] then Some bytes
          else if d = CHR ''='' then None
          else map_option (\<lambda>more. bytes @ more) (std_b64decode rest))"
| "std_b64decode _ = None"

text \<open>
  The image control sequence of the terminal is \<open>ESC _ G\<close>, control data, \<open>;\<close>,
  payload, \<open>ESC \\<close>. \<open>apc_payload\<close> reads the payload of a byte sequence of this
  form, \<open>contains\<close> says that a byte sequence occurs inside another.
\<close>

definition apc_prefix :: string where
  "apc_prefix = [ESC, CHR ''_'', CHR ''G'']"

definition apc_payload :: "string \<Rightarrow> string option" where
  "apc_payload s =
     (if take 3 s = apc_prefix \<and> 5 \<le> length s \<and> drop (length s - 2) s = [ESC, BACKSLASH]
      then (let body = take (length s - 5) (drop 3 s)
            in if CHR '';'' \<in> set body
               then Some (drop 1 (dropWhile (\<lambda>c. c \<noteq> CHR '';'') body))
               else None)
      else None)"

fun starts_with :: "string \<Rightarrow> string \<Rightarrow> bool" where
  "starts_with [] s = True"
| "starts_with (p # ps) [] = False"
| "starts_with (p # ps) (c # cs) = (p = c \<and> starts_with ps cs)"

fun contains :: "string \<Rightarrow> string \<Rightarrow> bool" where
  "contains p [] = (p = [])"
| "contains p (c # cs) = (starts_with p (c # cs) \<or> contains p cs)"

section \<open>A sample run\<close>

text \<open>
  An environment, ten items and a state for evaluating the program: a terminal of 12
  rows, a readable directory \<open>pics\<close> that holds no regular file, a converter that
  succeeds.
\<close>

definition sample_env :: env where
  "sample_env =
     \<lparr>tty_size = Some \<lparr>ws_row = 12, ws_col = 80\<rparr>,
      tcgetattr_ok = True,
      tcsetattr_ok = True,
      errno_text = ''Permission denied'',
      alloc_ok = (\<lambda>n. True),
      stat_type = (\<lambda>p. if p = ''pics'' then Some Directory else None),
      dir_entries = (\<lambda>p. if p = ''pics'' then Some [''.'', ''..''] else None),
      shell = (\<lambda>cmd. 0),
      atoi = (\<lambda>s. 4)\<rparr>"

definition sample_entry :: ImageEntry where
  "sample_entry = \<lparr>original_path = ''a.png'', thumb_path = None, generated = False\<rparr>"

definition sample_list :: ImageList where
  "sample_list = replicate 10 sample_entry"

text \<open>The same environment with a directory \<open>pics\<close> that cannot be opened.\<close>

definition locked_env :: env where
  "locked_env = sample_env\<lparr>dir_entries := (\<lambda>p. None)\<rparr>"

text \<open>The same environment with a converter that fails.\<close>

definition failing_env :: env where
  "failing_env = sample_env\<lparr>shell := (\<lambda>cmd. 1)\<rparr>"

definition viewer_at :: "ViewerMode \<Rightarrow> int \<Rightarrow> viewer" where
  "viewer_at m i = \<lparr>mode = m, selected = i, running = True\<rparr>"

text \<open>
  The same environment for the command line \<^verbatim>\<open>iv -c 2147483647 ...\<close>: \<^verbatim>\<open>atoi\<close> returns
  the largest \<^verbatim>\<open>int\<close>.
\<close>

definition wide_env :: env where
  "wide_env = sample_env\<lparr>atoi := (\<lambda>s. 2147483647)\<rparr>"

section \<open>Properties\<close>

subsection \<open>Arithmetic of the grid\<close>

lemma c_div_nonneg: "0 \<le> a \<Longrightarrow> 0 < b \<Longrightarrow> c_div a b = a div b"
  by (cases "a = 0") (simp_all add: c_div_def)

lemma c_mod_nonneg: "0 \<le> a \<Longrightarrow> 0 < b \<Longrightarrow> c_mod a b = a mod b"
  by (simp add: c_mod_def c_div_nonneg minus_mult_div_eq_mod)

lemma div_shift_up: "0 \<le> r \<Longrightarrow> r < g \<Longrightarrow> (r + (q + 1) * g) div g = q + 1" for g :: int
  by simp

lemma div_shift_down:
  "0 \<le> r \<Longrightarrow> r < g \<Longrightarrow> ((g - r - 1) + (- (q + 1)) * g) div g = - (q + 1)" for g :: int
  by simp

lemma neg_div_ceiling:
  assumes "0 < (g::int)"
  shows "(n + g - 1) div g = - ((- n) div g)"
proof -
  define q where "q = (n - 1) div g"
  define r where "r = (n - 1) mod g"
  have r: "0 \<le> r" "r < g" using assms by (simp_all add: r_def)
  have "n - 1 = q * g + r" unfolding q_def r_def by (rule div_mult_mod_eq [symmetric])
  then have n: "n = q * g + r + 1" by linarith
  have "n + g - 1 = r + (q + 1) * g"
    by (subst n) (simp add: algebra_simps)
  then have a: "(n + g - 1) div g = q + 1" using div_shift_up [OF r] by simp
  have "- n = (g - r - 1) + (- (q + 1)) * g"
    by (subst n) (simp add: algebra_simps)
  then have b: "(- n) div g = - (q + 1)" using div_shift_down [OF r] by simp
  show ?thesis using a b by simp
qed

lemma to_int_id: "- 2147483648 \<le> x \<Longrightarrow> x \<le> 2147483647 \<Longrightarrow> to_int x = x"
  by (simp add: to_int_def)

lemma to_size_t_id: "0 \<le> x \<Longrightarrow> x < 18446744073709551616 \<Longrightarrow> to_size_t x = x"
  by (simp add: to_size_t_def)

lemma rows_ceiling:
  assumes "0 < grid_cols"
  shows "(int count + grid_cols - 1) div grid_cols = \<lceil>real count / real_of_int grid_cols\<rceil>"
proof -
  have "\<lceil>real count / real_of_int grid_cols\<rceil> = \<lceil>real_of_int (int count) / real_of_int grid_cols\<rceil>"
    by simp
  also have "\<dots> = - ((- int count) div grid_cols)"
    by (simp only: ceiling_divide_eq_div)
  finally show ?thesis
    using neg_div_ceiling [OF assms, of "int count"] by simp
qed

lemma count_below_rows:
  assumes "0 < (g::int)"
  shows "n \<le> ((n + g - 1) div g) * g"
proof -
  have "(n + g - 1) mod g < g" using assms by simp
  moreover have "n + g - 1 = ((n + g - 1) div g) * g + (n + g - 1) mod g"
    by (rule div_mult_mod_eq [symmetric])
  ultimately show ?thesis by linarith
qed

lemma total_rows_exact:
  assumes "0 < grid_cols" and "grid_cols \<le> INT_MAX"
    and "(int count + grid_cols - 1) div grid_cols \<le> INT_MAX"
  shows "total_rows_of count grid_cols = (int count + grid_cols - 1) div grid_cols"
proof -
  let ?q = "(int count + grid_cols - 1) div grid_cols"
  have q0: "0 \<le> ?q" using assms(1) by (simp add: pos_imp_zdiv_nonneg_iff)
  have "int count \<le> ?q * grid_cols" using assms(1) by (rule count_below_rows)
  also have "\<dots> \<le> INT_MAX * INT_MAX"
    using assms q0 by (intro mult_mono) (simp_all add: INT_MAX_def)
  finally have c: "int count \<le> 4611686014132420609" by (simp add: INT_MAX_def)
  have g: "to_size_t grid_cols = grid_cols"
    using assms(1,2) by (intro to_size_t_id) (simp_all add: INT_MAX_def)
  have s: "to_size_t (int count + grid_cols) = int count + grid_cols"
    using assms(1,2) c by (intro to_size_t_id) (simp_all add: INT_MAX_def)
  have d: "to_size_t (int count + grid_cols - 1) = int count + grid_cols - 1"
    using assms(1,2) c by (intro to_size_t_id) (simp_all add: INT_MAX_def)
  have "to_int ?q = ?q"
    using q0 assms(3) by (intro to_int_id) (simp_all add: INT_MAX_def)
  then show ?thesis by (simp add: total_rows_of_def g s d)
qed

lemma total_rows_ceiling:
  assumes "0 < grid_cols" and "grid_cols \<le> INT_MAX"
    and "\<lceil>real count / real_of_int grid_cols\<rceil> \<le> INT_MAX"
  shows "total_rows_of count grid_cols = \<lceil>real count / real_of_int grid_cols\<rceil>"
  using total_rows_exact [OF assms(1,2), of count] assms(3)
  by (simp only: rows_ceiling [OF assms(1)])

subsection \<open>The scroll offset\<close>

lemma visible_rows_pos: "1 \<le> visible_rows_of tty"
  by (simp add: visible_rows_of_def Let_def)

lemma rows_of_nonneg: "0 \<le> rows_of tty"
  by (simp add: rows_of_def split: option.splits)



lemma total_rows_spec:
  assumes "0 < grid_cols" and "grid_cols \<le> INT_MAX"
    and "spec_total_rows count grid_cols \<le> INT_MAX"
  shows "total_rows_of count grid_cols = spec_total_rows count grid_cols"
  using assms(3) unfolding spec_total_rows_def by (rule total_rows_ceiling [OF assms(1,2)])

lemma sel_row_below_rows:
  assumes "0 < grid_cols" and "0 \<le> sel" and "sel < int count"
  shows "sel div grid_cols < (int count + grid_cols - 1) div grid_cols"
proof -
  have "sel div grid_cols \<le> (int count - 1) div grid_cols"
    using assms by (intro zdiv_mono1) simp_all
  also have "\<dots> < (int count - 1) div grid_cols + 1" by simp
  also have "\<dots> = (int count - 1 + grid_cols) div grid_cols"
    using assms by simp
  finally show ?thesis by (simp add: algebra_simps)
qed

lemma sel_row_below_total:
  assumes "0 < grid_cols" and "0 \<le> sel" and "sel < int count"
  shows "sel div grid_cols < spec_total_rows count grid_cols"
  using sel_row_below_rows [OF assms]
  by (simp only: spec_total_rows_def rows_ceiling [OF assms(1)])

lemma clamp_scroll_keeps_row:
  assumes "1 \<le> V" and "0 \<le> r" and "r < T" and "so \<le> r" and "r < so + V"
  shows "0 \<le> clamp_scroll T V so \<and> clamp_scroll T V so \<le> max 0 (T - V)
     \<and> clamp_scroll T V so \<le> r \<and> r < clamp_scroll T V so + V"
  using assms by (simp add: clamp_scroll_def Let_def)

lemma scroll_into_view_window:
  "1 \<le> V \<Longrightarrow> scroll_into_view r V so \<le> r \<and> r < scroll_into_view r V so + V"
  by (simp add: scroll_into_view_def)

lemma adjust_scroll_unfold:
  assumes "0 < grid_cols" and "0 \<le> sel"
  shows "adjust_scroll_for_selection tty count sel grid_cols so
     = clamp_scroll (total_rows_of count grid_cols) (visible_rows_of tty)
         (scroll_into_view (sel div grid_cols) (visible_rows_of tty) so)"
  using assms by (simp add: adjust_scroll_for_selection_def Let_def c_div_nonneg)

lemma adjust_scroll_window:
  assumes "0 < grid_cols" and "grid_cols \<le> INT_MAX"
    and "spec_total_rows count grid_cols \<le> INT_MAX"
    and "0 \<le> sel" and "sel < int count"
  shows "0 \<le> adjust_scroll_for_selection tty count sel grid_cols so
     \<and> adjust_scroll_for_selection tty count sel grid_cols so
          \<le> max 0 (spec_total_rows count grid_cols - visible_rows_of tty)
     \<and> adjust_scroll_for_selection tty count sel grid_cols so \<le> sel div grid_cols
     \<and> sel div grid_cols
          < adjust_scroll_for_selection tty count sel grid_cols so + visible_rows_of tty"
proof -
  let ?V = "visible_rows_of tty"
  let ?T = "spec_total_rows count grid_cols"
  let ?r = "sel div grid_cols"
  have r0: "0 \<le> ?r" using assms by (simp add: pos_imp_zdiv_nonneg_iff)
  have rT: "?r < ?T" using assms(1,4,5) by (rule sel_row_below_total)
  have w: "scroll_into_view ?r ?V so \<le> ?r" "?r < scroll_into_view ?r ?V so + ?V"
    using scroll_into_view_window [OF visible_rows_pos, of ?r tty so] by simp_all
  show ?thesis
    unfolding adjust_scroll_unfold [OF assms(1,4)] total_rows_spec [OF assms(1-3)]
    by (rule clamp_scroll_keeps_row [OF visible_rows_pos r0 rT w])
qed
















subsection \<open>Grid positions\<close>









subsection \<open>Navigation in the grid\<close>

lemma div_of_parts: "0 \<le> r \<Longrightarrow> r < g \<Longrightarrow> (r + q * g) div g = q" for g :: int
  by simp

lemma row_of_pred:
  fixes x g :: int
  assumes "0 < g" and "0 < x mod g"
  shows "(x - 1) div g = x div g"
proof -
  have "x - 1 = (x mod g - 1) + (x div g) * g" by (simp add: algebra_simps)
  then have "(x - 1) div g = ((x mod g - 1) + (x div g) * g) div g"
    by (rule arg_cong [where f = "\<lambda>t. t div g"])
  moreover have "0 \<le> x mod g - 1" "x mod g - 1 < g"
    using assms(2) pos_mod_bound [OF assms(1), of x] by linarith+
  then have "((x mod g - 1) + (x div g) * g) div g = x div g" by (rule div_of_parts)
  ultimately show ?thesis by (rule trans)
qed

lemma row_of_succ:
  fixes x g :: int
  assumes "0 < g" and "x mod g < g - 1"
  shows "(x + 1) div g = x div g"
proof -
  have "x + 1 = (x mod g + 1) + (x div g) * g" by (simp add: algebra_simps)
  then have "(x + 1) div g = ((x mod g + 1) + (x div g) * g) div g"
    by (rule arg_cong [where f = "\<lambda>t. t div g"])
  moreover have "0 \<le> x mod g + 1" "x mod g + 1 < g"
    using assms(2) pos_mod_sign [OF assms(1), of x] by linarith+
  then have "((x mod g + 1) + (x div g) * g) div g = x div g" by (rule div_of_parts)
  ultimately show ?thesis by (rule trans)
qed

text \<open>The keys \<open>h\<close>, \<open>l\<close>, \<open>k\<close> and \<open>j\<close> are the bytes 104, 108, 107 and 106.\<close>

lemma grid_key_h:
  "grid_key list g 104 s =
     (if c_mod (selected s) g > 0 then s\<lparr>selected := to_int (selected s - 1)\<rparr> else s)"
  by (simp add: grid_key_def EOF_def)

lemma grid_key_l:
  "grid_key list g 108 s =
     (if to_int (selected s + 1) < to_int (int (length list))
         \<and> c_mod (selected s) g < to_int (g - 1)
      then s\<lparr>selected := to_int (selected s + 1)\<rparr> else s)"
  by (simp add: grid_key_def EOF_def)

lemma grid_key_k:
  "grid_key list g 107 s =
     (if to_int (selected s - g) \<ge> 0 then s\<lparr>selected := to_int (selected s - g)\<rparr> else s)"
  by (simp add: grid_key_def EOF_def)

lemma grid_key_j:
  "grid_key list g 106 s =
     (if to_int (selected s + g) < to_int (int (length list))
      then s\<lparr>selected := to_int (selected s + g)\<rparr> else s)"
  by (simp add: grid_key_def EOF_def)

lemma grid_key_other:
  assumes "ch \<noteq> 104" and "ch \<noteq> 108" and "ch \<noteq> 107" and "ch \<noteq> 106"
  shows "selected (grid_key list g ch s) = selected s"
  using assms by (simp add: grid_key_def)

text \<open>
  When the item count and the column count together stay within \<open>2^31\<close>, no sum or
  difference of the key handler leaves the range of an \<^verbatim>\<open>int\<close>.
\<close>

lemma key_sums_in_range:
  assumes "0 < g" and "0 \<le> x" and "x < int n" and "int n + g \<le> 2147483648"
  shows "to_int (x - 1) = x - 1" and "to_int (x + 1) = x + 1" and "to_int (int n) = int n"
    and "to_int (g - 1) = g - 1" and "to_int (x - g) = x - g" and "to_int (x + g) = x + g"
  using assms by (simp_all add: to_int_id)

lemma grid_key_valid:
  assumes "0 < g" and "0 \<le> selected s" and "selected s < int (length list)"
    and "int (length list) + g \<le> 2147483648"
  shows "0 \<le> selected (grid_key list g ch s) \<and> selected (grid_key list g ch s) < int (length list)"
proof -
  note t = key_sums_in_range [OF assms]
  have m: "c_mod (selected s) g = selected s mod g"
    using assms by (simp add: c_mod_nonneg)
  have pos: "0 < selected s" if "0 < selected s mod g"
    using that assms by (cases "selected s = 0") simp_all
  consider "ch = 104" | "ch = 108" | "ch = 107" | "ch = 106"
    | "ch \<noteq> 104" "ch \<noteq> 108" "ch \<noteq> 107" "ch \<noteq> 106"
    by blast
  then show ?thesis
  proof cases
    case 1
    then show ?thesis using assms(1-3) pos by (simp add: grid_key_h m t)
  next
    case 2
    then show ?thesis using assms(1-3) by (simp add: grid_key_l t)
  next
    case 3
    then show ?thesis using assms(1-3) by (simp add: grid_key_k t)
  next
    case 4
    then show ?thesis using assms(1-3) by (simp add: grid_key_j t)
  next
    case 5
    then show ?thesis using assms(1-3) by (simp add: grid_key_other)
  qed
qed

lemma loop_body_grid_viewer:
  "mode s = MODE_GRID \<Longrightarrow>
     fst (loop_body e list g (s, w)) =
       grid_key list g
         (fst (read_keypress (render_grid e list g (selected s)
            (w\<lparr>scroll_offset := adjust_scroll_for_selection (tty_size e) (length list)
                 (selected s) g (scroll_offset w)\<rparr>)))) s"
  by (simp add: loop_body_def Let_def split: prod.splits)

lemma loop_body_focus_viewer:
  "mode s = MODE_FOCUS \<Longrightarrow> fst (loop_body e list g (s, w)) = s\<lparr>mode := MODE_GRID\<rparr>"
  by (simp add: loop_body_def Let_def)

text \<open>
  The navigation laws hold when the item count and the column count together stay
  within \<open>2^31\<close>: with a valid selection and a column count above zero, every key
  leaves \<open>selected\<close> a valid index, in \<open>grid_key\<close> and so in every turn of the loop; at
  \<open>selected = 0\<close> the keys \<open>h\<close> and \<open>k\<close> change nothing; at
  \<open>selected = item_count - 1\<close> the keys \<open>l\<close> and \<open>j\<close> change nothing; \<open>h\<close> and \<open>l\<close>
  never change the row \<open>selected / columns\<close>.
\<close>

lemma grid_navigation_in_range:
  assumes "0 < grid_cols" and "0 \<le> selected s" and "selected s < int (length list)"
    and "int (length list) + grid_cols \<le> 2147483648"
  shows "0 \<le> selected (grid_key list grid_cols ch s)
     \<and> selected (grid_key list grid_cols ch s) < int (length list)
     \<and> 0 \<le> selected (fst (loop_body e list grid_cols (s, w)))
     \<and> selected (fst (loop_body e list grid_cols (s, w))) < int (length list)
     \<and> (selected s = 0 \<and> (ch = of_char (CHR ''h'') \<or> ch = of_char (CHR ''k''))
          \<longrightarrow> grid_key list grid_cols ch s = s)
     \<and> (selected s = int (length list) - 1
          \<and> (ch = of_char (CHR ''l'') \<or> ch = of_char (CHR ''j''))
          \<longrightarrow> grid_key list grid_cols ch s = s)
     \<and> (ch = of_char (CHR ''h'') \<or> ch = of_char (CHR ''l'')
          \<longrightarrow> c_div (selected (grid_key list grid_cols ch s)) grid_cols
              = c_div (selected s) grid_cols)"
proof -
  note t = key_sums_in_range [OF assms]
  have m: "c_mod (selected s) grid_cols = selected s mod grid_cols"
    using assms by (simp add: c_mod_nonneg)
  have valid: "0 \<le> selected (grid_key list grid_cols c s)
      \<and> selected (grid_key list grid_cols c s) < int (length list)" for c
    using assms by (rule grid_key_valid)
  have body: "0 \<le> selected (fst (loop_body e list grid_cols (s, w)))
      \<and> selected (fst (loop_body e list grid_cols (s, w))) < int (length list)"
  proof (cases "mode s")
    case MODE_GRID
    then show ?thesis by (simp only: loop_body_grid_viewer valid)
  next
    case MODE_FOCUS
    then show ?thesis using assms by (simp add: loop_body_focus_viewer)
  qed
  have first: "grid_key list grid_cols ch s = s"
    if "selected s = 0 \<and> (ch = of_char (CHR ''h'') \<or> ch = of_char (CHR ''k''))"
    using that assms(1) t by (auto simp: grid_key_h grid_key_k c_mod_def c_div_def)
  have last: "grid_key list grid_cols ch s = s"
    if "selected s = int (length list) - 1
        \<and> (ch = of_char (CHR ''l'') \<or> ch = of_char (CHR ''j''))"
    using that assms(1) t by (auto simp: grid_key_l grid_key_j)
  have row: "c_div (selected (grid_key list grid_cols ch s)) grid_cols
      = c_div (selected s) grid_cols"
    if "ch = of_char (CHR ''h'') \<or> ch = of_char (CHR ''l'')"
  proof -
    have "selected (grid_key list grid_cols ch s) div grid_cols = selected s div grid_cols"
      using that assms(1) row_of_pred [of grid_cols "selected s"]
        row_of_succ [of grid_cols "selected s"]
      by (auto simp: grid_key_h grid_key_l m t)
    then show ?thesis
      using valid [of ch] assms by (simp add: c_div_nonneg)
  qed
  show ?thesis using valid [of ch] body first last row by blast
qed

subsection \<open>One group of the base64 encoder\<close>


lemma or_low_bits:
  fixes v x :: nat
  assumes "x < 2 ^ k"
  shows "push_bit k v OR x = v * 2 ^ k + x"
proof -
  have "push_bit k v AND x = 0"
  proof (rule bit_eqI)
    fix n
    show "bit (push_bit k v AND x) n \<longleftrightarrow> bit (0::nat) n"
    proof (cases "n < k")
      case True
      then show ?thesis by (simp add: bit_simps)
    next
      case False
      then have "2 ^ k \<le> (2::nat) ^ n" by simp
      with assms have "x < 2 ^ n" by linarith
      then have "\<not> bit x n" by (simp add: bit_iff_odd)
      then show ?thesis by (simp add: bit_simps)
    qed
  qed
  then have "push_bit k v + x = push_bit k v OR x" by (rule disjunctive_add_eq_or)
  then show ?thesis by (simp add: push_bit_eq_mult)
qed

lemma and_63: "(v::nat) AND 0x3F = v mod 64"
proof -
  have "v AND mask 6 = take_bit 6 v" by (simp add: take_bit_eq_mask)
  then show ?thesis by (simp add: take_bit_eq_mod mask_eq_exp_minus_1)
qed


lemma gather3_cons:
  "gather3 n v pad (ch # rest) =
     (if n < 3 then gather3 (Suc n) (push_bit 8 v mod 2 ^ 32 OR of_char ch) pad rest
      else (v, pad, ch # rest))"
  by (subst gather3.simps) (simp add: Let_def)

lemma gather3_nil:
  "gather3 n v pad [] =
     (if n < 3 then gather3 (Suc n) (push_bit 8 v mod 2 ^ 32) (Suc pad) [] else (v, pad, []))"
  by (subst gather3.simps) (simp add: Let_def)

text \<open>One turn of the inner loop on an accumulator that still fits.\<close>

lemma shift_only:
  assumes "v < 2 ^ 24"
  shows "push_bit 8 v mod 2 ^ 32 = v * (256::nat)"
proof -
  have "v * 256 < 2 ^ 32" using assms by simp
  then show ?thesis by (simp add: push_bit_eq_mult)
qed

lemma shift_or_byte:
  assumes "v < 2 ^ 24"
  shows "(push_bit 8 v mod 2 ^ 32) OR (of_char c :: nat) = v * 256 + of_char c"
proof -
  have "push_bit 8 v mod 2 ^ 32 = push_bit 8 v"
    using shift_only [OF assms] by (simp add: push_bit_eq_mult)
  then show ?thesis using or_low_bits [of "of_char c" 8 v] by simp
qed

lemma byte_le: "(of_char c :: nat) \<le> 255"
  using nat_of_char_less_256 [of c] by linarith

lemma gather3_done: "gather3 (Suc (Suc (Suc 0))) v pad inp = (v, pad, inp)"
  by (subst gather3.simps) simp

lemma gather3_byte:
  assumes "n < 3" and "v < 2 ^ 24"
  shows "gather3 n v pad (ch # rest) = gather3 (Suc n) (v * 256 + of_char ch) pad rest"
proof -
  have "gather3 n v pad (ch # rest)
      = gather3 (Suc n) (push_bit 8 v mod 2 ^ 32 OR of_char ch) pad rest"
    by (subst gather3_cons) (simp only: assms(1) if_True)
  then show ?thesis by (simp only: shift_or_byte [OF assms(2)])
qed

lemma gather3_pad:
  assumes "n < 3" and "v < 2 ^ 24"
  shows "gather3 n v pad [] = gather3 (Suc n) (v * 256) (Suc pad) []"
proof -
  have "gather3 n v pad [] = gather3 (Suc n) (push_bit 8 v mod 2 ^ 32) (Suc pad) []"
    by (subst gather3_nil) (simp only: assms(1) if_True)
  then show ?thesis by (simp only: shift_only [OF assms(2)])
qed

lemma gather3_three:
  "gather3 0 0 0 (a # b # c # rest)
     = (of_char a * 65536 + of_char b * 256 + of_char c, 0, rest)"
proof -
  let ?a = "of_char a :: nat" and ?b = "of_char b :: nat" and ?c = "of_char c :: nat"
  have "gather3 0 0 0 (a # b # c # rest) = gather3 (Suc 0) (0 * 256 + ?a) 0 (b # c # rest)"
    by (rule gather3_byte) simp_all
  also have "\<dots> = gather3 (Suc (Suc 0)) ((0 * 256 + ?a) * 256 + ?b) 0 (c # rest)"
    by (rule gather3_byte) (use byte_le [of a] in simp_all)
  also have "\<dots> = gather3 (Suc (Suc (Suc 0))) (((0 * 256 + ?a) * 256 + ?b) * 256 + ?c) 0 rest"
    by (rule gather3_byte) (use byte_le [of a] byte_le [of b] in simp_all)
  finally show ?thesis by (simp add: gather3_done)
qed

lemma gather3_two:
  "gather3 0 0 0 [a, b] = (of_char a * 65536 + of_char b * 256, 1, [])"
proof -
  let ?a = "of_char a :: nat" and ?b = "of_char b :: nat"
  have "gather3 0 0 0 [a, b] = gather3 (Suc 0) (0 * 256 + ?a) 0 [b]"
    by (rule gather3_byte) simp_all
  also have "\<dots> = gather3 (Suc (Suc 0)) ((0 * 256 + ?a) * 256 + ?b) 0 []"
    by (rule gather3_byte) (use byte_le [of a] in simp_all)
  also have "\<dots> = gather3 (Suc (Suc (Suc 0))) (((0 * 256 + ?a) * 256 + ?b) * 256) (Suc 0) []"
    by (rule gather3_pad) (use byte_le [of a] byte_le [of b] in simp_all)
  finally show ?thesis by (simp add: gather3_done)
qed

lemma gather3_one:
  "gather3 0 0 0 [a] = (of_char a * 65536, 2, [])"
proof -
  let ?a = "of_char a :: nat"
  have "gather3 0 0 0 [a] = gather3 (Suc 0) (0 * 256 + ?a) 0 []"
    by (rule gather3_byte) simp_all
  also have "\<dots> = gather3 (Suc (Suc 0)) ((0 * 256 + ?a) * 256) (Suc 0) []"
    by (rule gather3_pad) (use byte_le [of a] in simp_all)
  also have "\<dots> = gather3 (Suc (Suc (Suc 0))) ((0 * 256 + ?a) * 256 * 256) (Suc (Suc 0)) []"
    by (rule gather3_pad) (use byte_le [of a] in simp_all)
  finally show ?thesis by (simp add: gather3_done)
qed

lemma b64_loop_nil: "b64_loop [] = []"
  by (subst b64_loop.simps) simp

lemma b64_loop_one:
  "b64_loop [a] =
     [tbl ! (of_char a * 65536 div 262144 mod 64),
      tbl ! (of_char a * 65536 div 4096 mod 64), CHR ''='', CHR ''='']"
  by (subst b64_loop.simps) (simp add: gather3_one and_63 drop_bit_eq_div b64_loop_nil)

lemma b64_loop_two:
  "b64_loop [a, b] =
     [tbl ! ((of_char a * 65536 + of_char b * 256) div 262144 mod 64),
      tbl ! ((of_char a * 65536 + of_char b * 256) div 4096 mod 64),
      tbl ! ((of_char a * 65536 + of_char b * 256) div 64 mod 64), CHR ''='']"
  by (subst b64_loop.simps) (simp add: gather3_two and_63 drop_bit_eq_div b64_loop_nil)

lemma b64_loop_three:
  "b64_loop (a # b # c # rest) =
     [tbl ! ((of_char a * 65536 + of_char b * 256 + of_char c) div 262144 mod 64),
      tbl ! ((of_char a * 65536 + of_char b * 256 + of_char c) div 4096 mod 64),
      tbl ! ((of_char a * 65536 + of_char b * 256 + of_char c) div 64 mod 64),
      tbl ! ((of_char a * 65536 + of_char b * 256 + of_char c) mod 64)] @ b64_loop rest"
  by (subst b64_loop.simps) (simp add: gather3_three and_63 drop_bit_eq_div)

subsection \<open>Digits in base 64\<close>


lemma join2:
  fixes n :: nat
  assumes "n < 16777216"
  shows "n div 262144 mod 64 * 64 + n div 4096 mod 64 = n div 4096"
proof -
  have "n div 262144 < 64" using assms by simp
  then have a: "n div 262144 mod 64 = n div 262144" by simp
  have b: "n div 4096 div 64 = n div 262144" by (simp add: div_mult2_eq [symmetric])
  from div_mult_mod_eq [of "n div 4096" 64] show ?thesis by (simp only: a b)
qed

lemma join3:
  fixes n :: nat
  assumes "n < 16777216"
  shows "(n div 262144 mod 64 * 64 + n div 4096 mod 64) * 64 + n div 64 mod 64 = n div 64"
proof -
  have b: "n div 64 div 64 = n div 4096" by (simp add: div_mult2_eq [symmetric])
  from div_mult_mod_eq [of "n div 64" 64] show ?thesis by (simp only: join2 [OF assms] b)
qed

lemma join4:
  fixes n :: nat
  assumes "n < 16777216"
  shows "((n div 262144 mod 64 * 64 + n div 4096 mod 64) * 64 + n div 64 mod 64) * 64
           + n mod 64 = n"
  by (simp only: join3 [OF assms] div_mult_mod_eq)

lemma bytes1: "a * 65536 div 4096 div 16 = a" for a :: nat
  by simp

lemma bytes2:
  fixes a b :: nat
  assumes "b < 256"
  shows "(a * 65536 + b * 256) div 64 div 1024 = a"
    and "(a * 65536 + b * 256) div 64 div 4 = a * 256 + b"
  using assms by simp_all

lemma bytes3:
  fixes a b c :: nat
  assumes "b < 256" and "c < 256"
  shows "(a * 65536 + b * 256 + c) div 65536 = a"
    and "(a * 65536 + b * 256 + c) div 256 = a * 256 + b"
  using assms by simp_all

lemma char_of_high: "char_of (a * 256 + (of_char c :: nat)) = c"
  by (subst char_of_mod_256 [symmetric]) simp

subsection \<open>The encoder writes standard base64\<close>

lemma tbl_alphabet: "tbl = b64_alphabet"
  by (simp add: tbl_def b64_alphabet_def)

lemma b64_loop_standard: "b64_loop p = std_b64encode p"
proof (induction p rule: std_b64encode.induct)
  case 1
  show ?case by (simp add: b64_loop_nil)
next
  case (2 a)
  show ?case by (simp add: b64_loop_one b64_digit_def tbl_alphabet Let_def)
next
  case (3 a b)
  show ?case by (simp add: b64_loop_two b64_digit_def tbl_alphabet Let_def)
next
  case (4 a b c rest)
  then show ?case by (simp add: b64_loop_three b64_digit_def tbl_alphabet Let_def)
qed

lemma div3_step: "(5 + n) div 3 = Suc ((2 + n) div 3)" for n :: nat
  by presburger

lemma b64_loop_length: "length (b64_loop p) = 4 * ((length p + 2) div 3)"
  unfolding b64_loop_standard
  by (induction p rule: std_b64encode.induct) (simp_all add: Let_def div3_step)

subsection \<open>Decoding what the encoder wrote\<close>

lemma index_of_nth:
  "distinct xs \<Longrightarrow> k < length xs \<Longrightarrow> index_of (xs ! k) xs = Some k"
proof (induction xs arbitrary: k)
  case Nil
  then show ?case by simp
next
  case (Cons x xs)
  show ?case
  proof (cases k)
    case 0
    then show ?thesis by simp
  next
    case (Suc j)
    with Cons.prems have "xs ! j \<noteq> x" by auto
    with Suc Cons show ?thesis by simp
  qed
qed

lemma alphabet_length: "length b64_alphabet = 64"
  by (simp add: b64_alphabet_def)

lemma alphabet_distinct: "distinct b64_alphabet"
  by (simp add: b64_alphabet_def)

lemma digit_in_alphabet: "b64_digit n k \<in> set b64_alphabet"
  unfolding b64_digit_def by (rule nth_mem) (simp add: alphabet_length)

lemma digit_not_pad: "b64_digit n k \<noteq> CHR ''=''"
proof
  assume "b64_digit n k = CHR ''=''"
  with digit_in_alphabet [of n k] have "CHR ''='' \<in> set b64_alphabet" by simp
  then show False by (simp add: b64_alphabet_def)
qed

lemma digits:
  "b64_digit n 3 = b64_alphabet ! (n div 262144 mod 64)"
  "b64_digit n 2 = b64_alphabet ! (n div 4096 mod 64)"
  "b64_digit n 1 = b64_alphabet ! (n div 64 mod 64)"
  "b64_digit n 0 = b64_alphabet ! (n mod 64)"
  by (simp_all add: b64_digit_def)

lemma value_nth: "k < 64 \<Longrightarrow> b64_value (b64_alphabet ! k) = Some k"
  unfolding b64_value_def
  by (rule index_of_nth [OF alphabet_distinct]) (simp add: alphabet_length)

lemma nth_not_pad: "k < 64 \<Longrightarrow> b64_alphabet ! k \<noteq> CHR ''=''"
  using digit_not_pad [of k 0] by (simp add: b64_digit_def)

lemma decode_quad_full:
  assumes "x < 64" and "y < 64" and "z < 64" and "u < 64"
  shows "decode_quad (b64_alphabet ! x) (b64_alphabet ! y) (b64_alphabet ! z) (b64_alphabet ! u)
     = Some [char_of ((((x * 64 + y) * 64 + z) * 64 + u) div 65536),
             char_of ((((x * 64 + y) * 64 + z) * 64 + u) div 256),
             char_of (((x * 64 + y) * 64 + z) * 64 + u)]"
  unfolding decode_quad_def
  by (simp only: value_nth [OF assms(1)] value_nth [OF assms(2)] value_nth [OF assms(3)]
      value_nth [OF assms(4)] nth_not_pad [OF assms(3)] nth_not_pad [OF assms(4)]
      prod.case option.case if_False simp_thms)

lemma decode_quad_pad1:
  assumes "x < 64" and "y < 64" and "z < 64"
  shows "decode_quad (b64_alphabet ! x) (b64_alphabet ! y) (b64_alphabet ! z) (CHR ''='')
     = Some [char_of (((x * 64 + y) * 64 + z) div 1024),
             char_of (((x * 64 + y) * 64 + z) div 4)]"
  unfolding decode_quad_def
  by (simp only: value_nth [OF assms(1)] value_nth [OF assms(2)] value_nth [OF assms(3)]
      nth_not_pad [OF assms(3)] prod.case option.case if_False if_True simp_thms)

lemma decode_quad_pad2:
  assumes "x < 64" and "y < 64"
  shows "decode_quad (b64_alphabet ! x) (b64_alphabet ! y) (CHR ''='') (CHR ''='')
     = Some [char_of ((x * 64 + y) div 16)]"
  unfolding decode_quad_def
  by (simp only: value_nth [OF assms(1)] value_nth [OF assms(2)]
      prod.case option.case if_True simp_thms)

lemma group_bound: "of_char a * 65536 + of_char b * 256 + (of_char c :: nat) < 16777216"
  using byte_le [of a] byte_le [of b] byte_le [of c] by linarith

lemma m64: "k mod 64 < (64::nat)"
  by simp

lemma decode_quad_one:
  "decode_quad (b64_digit (of_char a * 65536) 3) (b64_digit (of_char a * 65536) 2)
     (CHR ''='') (CHR ''='') = Some [a]"
proof -
  let ?n = "of_char a * 65536 :: nat"
  have "?n < 16777216" using byte_le [of a] by linarith
  then have j: "?n div 262144 mod 64 * 64 + ?n div 4096 mod 64 = ?n div 4096" by (rule join2)
  have b: "?n div 4096 div 16 = of_char a" by (rule bytes1)
  show ?thesis
    unfolding digits by (simp only: decode_quad_pad2 [OF m64 m64] j b char_of_char)
qed

lemma decode_quad_two:
  "decode_quad (b64_digit (of_char a * 65536 + of_char b * 256) 3)
     (b64_digit (of_char a * 65536 + of_char b * 256) 2)
     (b64_digit (of_char a * 65536 + of_char b * 256) 1) (CHR ''='') = Some [a, b]"
proof -
  let ?n = "of_char a * 65536 + of_char b * 256 :: nat"
  have "?n < 16777216" using byte_le [of a] byte_le [of b] by linarith
  then have j: "(?n div 262144 mod 64 * 64 + ?n div 4096 mod 64) * 64 + ?n div 64 mod 64
      = ?n div 64" by (rule join3)
  have b: "?n div 64 div 1024 = of_char a" "?n div 64 div 4 = of_char a * 256 + of_char b"
    by (rule bytes2, simp)+
  show ?thesis
    unfolding digits
    by (simp only: decode_quad_pad1 [OF m64 m64 m64] j b char_of_char char_of_high)
qed

lemma decode_quad_three:
  "decode_quad (b64_digit (of_char a * 65536 + of_char b * 256 + of_char c) 3)
     (b64_digit (of_char a * 65536 + of_char b * 256 + of_char c) 2)
     (b64_digit (of_char a * 65536 + of_char b * 256 + of_char c) 1)
     (b64_digit (of_char a * 65536 + of_char b * 256 + of_char c) 0) = Some [a, b, c]"
proof -
  let ?n = "of_char a * 65536 + of_char b * 256 + of_char c :: nat"
  have j: "((?n div 262144 mod 64 * 64 + ?n div 4096 mod 64) * 64 + ?n div 64 mod 64) * 64
      + ?n mod 64 = ?n" by (rule join4 [OF group_bound])
  have b: "?n div 65536 = of_char a" "?n div 256 = of_char a * 256 + of_char b"
    by (rule bytes3, simp, simp)+
  have "?n = (of_char a * 256 + of_char b) * 256 + of_char c" by simp
  then have c: "char_of ?n = c" by (simp only: char_of_high)
  show ?thesis
    unfolding digits
    by (simp only: decode_quad_full [OF m64 m64 m64 m64] j b c char_of_char char_of_high)
qed

lemma std_b64encode_empty: "std_b64encode p = [] \<longleftrightarrow> p = []"
  by (induction p rule: std_b64encode.induct) (simp_all add: Let_def)

lemma std_b64_roundtrip: "std_b64decode (std_b64encode p) = Some p"
proof (induction p rule: std_b64encode.induct)
  case 1
  show ?case by simp
next
  case (2 a)
  show ?case by (simp add: Let_def decode_quad_one del: One_nat_def)
next
  case (3 a b)
  show ?case by (simp add: Let_def decode_quad_two del: One_nat_def)
next
  case (4 a b c rest)
  then show ?case
    by (simp add: Let_def decode_quad_three digit_not_pad std_b64encode_empty
        del: One_nat_def)
qed

lemma b64_loop_roundtrip: "std_b64decode (b64_loop p) = Some p"
  by (simp add: b64_loop_standard std_b64_roundtrip)

subsection \<open>What the display functions write\<close>

lemma printf_d_cells:
  "printf_d THUMB_COLS = ''10''" "printf_d THUMB_ROWS = ''5''"
  "printf_d 80 = ''80''" "printf_d 24 = ''24''"
  by (simp_all add: printf_d_def decimal.simps digit_def THUMB_COLS_def THUMB_ROWS_def)

lemma kitty_display_thumb:
  "kitty_display THUMB_COLS THUMB_ROWS b64
     = [ESC] @ ''_Ga=T,f=100,t=f,c=10,r=5,C=1;'' @ b64 @ [ESC, BACKSLASH]"
  by (simp add: kitty_display_def printf_d_cells)

lemma kitty_display_focus:
  "kitty_display 80 24 b64
     = [ESC] @ ''_Ga=T,f=100,t=f,c=80,r=24,C=1;'' @ b64 @ [ESC, BACKSLASH]"
  by (simp add: kitty_display_def printf_d_cells)

lemma b64encode_path_granted:
  "alloc_ok e (4 * ((length path + 2) div 3) + 1) \<Longrightarrow> b64encode_path e path = Some (b64_loop path)"
  by (simp add: b64encode_path_def Let_def)

lemma b64encode_path_refused:
  "\<not> alloc_ok e (4 * ((length path + 2) div 3) + 1) \<Longrightarrow> b64encode_path e path = None"
  by (simp add: b64encode_path_def Let_def)

lemma apc_payload_thumb:
  "apc_payload (kitty_display THUMB_COLS THUMB_ROWS b64) = Some b64"
  by (simp add: kitty_display_thumb apc_payload_def apc_prefix_def Let_def)

lemma apc_payload_focus:
  "apc_payload (kitty_display 80 24 b64) = Some b64"
  by (simp add: kitty_display_focus apc_payload_def apc_prefix_def Let_def)

lemma display_thumbnail_present:
  assumes "alloc_ok e (4 * ((length path + 2) div 3) + 1)"
  shows "stdout (display_thumbnail_kitty e (Some path) w)
     = stdout w @ kitty_display THUMB_COLS THUMB_ROWS (b64_loop path)"
  by (simp add: display_thumbnail_kitty_def b64encode_path_granted [OF assms] print_out_def)

lemma display_thumbnail_absent:
  "stdout (display_thumbnail_kitty e None w) = stdout w @ ''[?]''"
  by (simp add: display_thumbnail_kitty_def print_out_def)

lemma display_thumbnail_refused:
  assumes "\<not> alloc_ok e (4 * ((length path + 2) div 3) + 1)"
  shows "stdout (display_thumbnail_kitty e (Some path) w) = stdout w @ ''[b64-fail]''"
  by (simp add: display_thumbnail_kitty_def b64encode_path_refused [OF assms] print_out_def)

lemma no_payload_in_failure: "apc_payload ''[b64-fail]'' = None"
  by (simp add: apc_payload_def apc_prefix_def ESC_def)

text \<open>
  C5. For every path that is present, in every environment: whenever the bytes that
  \<open>display_thumbnail_kitty\<close> writes are an image control sequence with a payload,
  the payload decoded as standard base64 is the path, byte for byte; and they are such
  a sequence once the buffer for the base64 text is granted. For an absent path the
  function writes the three visible bytes \<open>[?]\<close>, which do not contain the prefix
  \<open>ESC _ G\<close> of the image control sequence.
\<close>

theorem display_payload_roundtrip:
  "(\<forall>out payload.
       stdout (display_thumbnail_kitty e (Some path) w) = stdout w @ out
       \<and> apc_payload out = Some payload
       \<longrightarrow> std_b64decode payload = Some path)
   \<and> (alloc_ok e (4 * ((length path + 2) div 3) + 1) \<longrightarrow>
        (\<exists>out payload.
            stdout (display_thumbnail_kitty e (Some path) w) = stdout w @ out
            \<and> apc_payload out = Some payload))
   \<and> stdout (display_thumbnail_kitty e None w) = stdout w @ ''[?]''
   \<and> \<not> contains apc_prefix ''[?]''"
proof (intro conjI allI impI)
  fix out payload
  assume a: "stdout (display_thumbnail_kitty e (Some path) w) = stdout w @ out
       \<and> apc_payload out = Some payload"
  show "std_b64decode payload = Some path"
  proof (cases "alloc_ok e (4 * ((length path + 2) div 3) + 1)")
    case True
    with a have "out = kitty_display THUMB_COLS THUMB_ROWS (b64_loop path)"
      by (simp add: display_thumbnail_present)
    with a have "payload = b64_loop path" by (simp add: apc_payload_thumb)
    then show ?thesis by (simp add: b64_loop_roundtrip)
  next
    case False
    with a have "out = ''[b64-fail]''" by (simp add: display_thumbnail_refused)
    with a show ?thesis by (simp add: no_payload_in_failure)
  qed
next
  assume "alloc_ok e (4 * ((length path + 2) div 3) + 1)"
  then have "stdout (display_thumbnail_kitty e (Some path) w)
      = stdout w @ kitty_display THUMB_COLS THUMB_ROWS (b64_loop path)"
    by (rule display_thumbnail_present)
  moreover have "apc_payload (kitty_display THUMB_COLS THUMB_ROWS (b64_loop path))
      = Some (b64_loop path)" by (rule apc_payload_thumb)
  ultimately show "\<exists>out payload.
            stdout (display_thumbnail_kitty e (Some path) w) = stdout w @ out
            \<and> apc_payload out = Some payload" by blast
next
  show "stdout (display_thumbnail_kitty e None w) = stdout w @ ''[?]''"
    by (rule display_thumbnail_absent)
  show "\<not> contains apc_prefix ''[?]''"
    by (simp add: apc_prefix_def ESC_def)
qed

lemma sample_thumb_text: "b64_loop ''/tmp/iv_a.png.thumb.png'' = ''L3RtcC9pdl9hLnBuZy50aHVtYi5wbmc=''"
  by (simp add: b64_loop_three b64_loop_two b64_loop_nil tbl_def)

theorem display_payload_roundtrip_witness:
  "alloc_ok sample_env (4 * ((length ''/tmp/iv_a.png.thumb.png'' + 2) div 3) + 1)
   \<and> stdout (display_thumbnail_kitty sample_env (Some ''/tmp/iv_a.png.thumb.png'')
        (initial_world []))
      = stdout (initial_world [])
        @ [ESC] @ ''_Ga=T,f=100,t=f,c=10,r=5,C=1;L3RtcC9pdl9hLnBuZy50aHVtYi5wbmc='' @ [ESC, BACKSLASH]
   \<and> apc_payload
        ([ESC] @ ''_Ga=T,f=100,t=f,c=10,r=5,C=1;L3RtcC9pdl9hLnBuZy50aHVtYi5wbmc='' @ [ESC, BACKSLASH])
      = Some ''L3RtcC9pdl9hLnBuZy50aHVtYi5wbmc=''
   \<and> std_b64decode ''L3RtcC9pdl9hLnBuZy50aHVtYi5wbmc='' = Some ''/tmp/iv_a.png.thumb.png''
   \<and> stdout (display_thumbnail_kitty sample_env None (initial_world [])) = ''[?]''"
proof -
  let ?out = "[ESC] @ ''_Ga=T,f=100,t=f,c=10,r=5,C=1;L3RtcC9pdl9hLnBuZy50aHVtYi5wbmc=''
      @ [ESC, BACKSLASH]"
  have a: "alloc_ok sample_env (4 * ((length ''/tmp/iv_a.png.thumb.png'' + 2) div 3) + 1)"
    by (simp add: sample_env_def)
  have b: "stdout (display_thumbnail_kitty sample_env (Some ''/tmp/iv_a.png.thumb.png'')
        (initial_world [])) = stdout (initial_world []) @ ?out"
    by (simp add: display_thumbnail_present [OF a] kitty_display_thumb sample_thumb_text)
  have c: "apc_payload ?out = Some ''L3RtcC9pdl9hLnBuZy50aHVtYi5wbmc=''"
    using apc_payload_thumb [of "''L3RtcC9pdl9hLnBuZy50aHVtYi5wbmc=''"]
    by (simp add: kitty_display_thumb)
  have d: "std_b64decode ''L3RtcC9pdl9hLnBuZy50aHVtYi5wbmc='' = Some ''/tmp/iv_a.png.thumb.png''"
    using display_payload_roundtrip [of sample_env "''/tmp/iv_a.png.thumb.png''"
        "initial_world []", THEN conjunct1, THEN spec, THEN spec, THEN mp, OF conjI [OF b c]] .
  have e: "stdout (display_thumbnail_kitty sample_env None (initial_world [])) = ''[?]''"
    by (simp add: display_thumbnail_absent initial_world_def)
  show ?thesis using a b c d e by (simp only: simp_thms)
qed

text \<open>
  C6. Once the buffer for the base64 text is granted, the bytes that
  \<open>display_thumbnail_kitty\<close> writes for a path are exactly
  \<open>ESC _ G a=T,f=100,t=f,c=10,r=5,C=1 ; base64(path) ESC \\<close>, with the cell
  size of a thumbnail; \<open>display_focus_kitty\<close> writes the same with 80 columns and 24
  rows; \<open>kitty_delete_all\<close> writes exactly \<open>ESC _ G a=d ESC \\<close>. The bytes
  written for a path depend on nothing but the path: in any other environment that
  grants the buffer, and from any other state, they are the same.
\<close>

theorem display_bytes_exact:
  assumes "alloc_ok e (4 * ((length path + 2) div 3) + 1)"
  shows "stdout (display_thumbnail_kitty e (Some path) w)
       = stdout w @ [ESC] @ ''_Ga=T,f=100,t=f,c=10,r=5,C=1;'' @ std_b64encode path
           @ [ESC, BACKSLASH]
     \<and> stdout (display_focus_kitty e (Some path) w)
       = stdout w @ [ESC] @ ''_Ga=T,f=100,t=f,c=80,r=24,C=1;'' @ std_b64encode path
           @ [ESC, BACKSLASH]
     \<and> stdout (kitty_delete_all w) = stdout w @ [ESC] @ ''_Ga=d'' @ [ESC, BACKSLASH]
     \<and> (\<forall>(e'::env) w'. alloc_ok e' (4 * ((length path + 2) div 3) + 1) \<longrightarrow>
           drop (length (stdout w')) (stdout (display_thumbnail_kitty e' (Some path) w'))
         = drop (length (stdout w)) (stdout (display_thumbnail_kitty e (Some path) w)))"
proof (intro conjI allI impI)
  show "stdout (display_thumbnail_kitty e (Some path) w)
       = stdout w @ [ESC] @ ''_Ga=T,f=100,t=f,c=10,r=5,C=1;'' @ std_b64encode path
           @ [ESC, BACKSLASH]"
    by (simp only: display_thumbnail_present [OF assms] kitty_display_thumb b64_loop_standard)
  show "stdout (display_focus_kitty e (Some path) w)
       = stdout w @ [ESC] @ ''_Ga=T,f=100,t=f,c=80,r=24,C=1;'' @ std_b64encode path
           @ [ESC, BACKSLASH]"
    by (simp add: display_focus_kitty_def b64encode_path_granted [OF assms] print_out_def
        kitty_display_focus b64_loop_standard)
  show "stdout (kitty_delete_all w) = stdout w @ [ESC] @ ''_Ga=d'' @ [ESC, BACKSLASH]"
    by (simp add: kitty_delete_all_def print_out_def)
next
  fix e' :: env and w' :: world
  assume a': "alloc_ok e' (4 * ((length path + 2) div 3) + 1)"
  show "drop (length (stdout w')) (stdout (display_thumbnail_kitty e' (Some path) w'))
         = drop (length (stdout w)) (stdout (display_thumbnail_kitty e (Some path) w))"
    by (simp only: display_thumbnail_present [OF a'] display_thumbnail_present [OF assms])
      simp
qed

theorem display_bytes_exact_witness:
  "alloc_ok sample_env (4 * ((length ''Man'' + 2) div 3) + 1)
   \<and> stdout (display_thumbnail_kitty sample_env (Some ''Man'') (initial_world []))
       = [ESC] @ ''_Ga=T,f=100,t=f,c=10,r=5,C=1;TWFu'' @ [ESC, BACKSLASH]
   \<and> stdout (display_focus_kitty sample_env (Some ''Man'') (initial_world []))
       = [ESC] @ ''_Ga=T,f=100,t=f,c=80,r=24,C=1;TWFu'' @ [ESC, BACKSLASH]
   \<and> stdout (kitty_delete_all (initial_world [])) = [ESC] @ ''_Ga=d'' @ [ESC, BACKSLASH]"
proof -
  have a: "alloc_ok sample_env (4 * ((length ''Man'' + 2) div 3) + 1)"
    by (simp add: sample_env_def)
  have "std_b64encode ''Man'' = ''TWFu''"
    by (simp add: digits b64_alphabet_def del: One_nat_def)
  with a display_bytes_exact [OF a, of "initial_world []"] show ?thesis
    by (simp add: initial_world_def)
qed

subsection \<open>What one turn of the loop reads\<close>

lemma stdin_print_out: "stdin (print_out t w) = stdin w"
  by (simp add: print_out_def)

lemma stdin_display_thumbnail: "stdin (display_thumbnail_kitty e t w) = stdin w"
  by (simp add: display_thumbnail_kitty_def stdin_print_out split: option.splits)

lemma stdin_render_cells: "stdin (render_cells e list g sel sr row col w) = stdin w"
proof (induction e list g sel sr row col w rule: render_cells.induct)
  case (1 e list g sel sr row col w)
  show ?case
  proof (cases "col < g \<and> \<not> item_index row col g \<ge> to_int (int (length list))")
    case True
    then show ?thesis
      using 1 [OF _ refl _ refl refl refl refl refl refl refl]
      by (subst render_cells.simps) (simp add: Let_def stdin_print_out stdin_display_thumbnail)
  next
    case False
    then show ?thesis by (subst render_cells.simps) (auto simp: Let_def)
  qed
qed

lemma stdin_render_rows: "stdin (render_rows e list g sel sr er row w) = stdin w"
proof (induction e list g sel sr er row w rule: render_rows.induct)
  case (1 e list g sel sr er row w)
  then show ?case by (subst render_rows.simps) (simp add: stdin_render_cells)
qed

lemma stdin_render_grid: "stdin (render_grid e list g sel w) = stdin w"
  by (simp add: render_grid_def Let_def stdin_print_out stdin_render_rows)

lemma key_cases:
  "fst (read_keypress w) = (case stdin w of [] \<Rightarrow> EOF | ch # rest \<Rightarrow> of_char ch)"
  by (simp add: read_keypress_def split: list.splits)

lemma loop_body_grid_key:
  assumes "mode s = MODE_GRID"
  shows "fst (loop_body e list g (s, w)) = grid_key list g (fst (read_keypress w)) s"
  unfolding loop_body_grid_viewer [OF assms]
  by (simp add: key_cases stdin_render_grid)




subsection \<open>Navigation with the largest column count\<close>

lemma loop_body_grid_stdin:
  assumes "mode s = MODE_GRID"
  shows "stdin (snd (loop_body e list g (s, w))) = drop 1 (stdin w)"
proof -
  have k: "stdin (snd (read_keypress v)) = drop 1 (stdin v)" for v
    by (cases "stdin v") (simp_all add: read_keypress_def)
  have "snd (loop_body e list g (s, w))
      = snd (read_keypress (render_grid e list g (selected s)
            (w\<lparr>scroll_offset := adjust_scroll_for_selection (tty_size e) (length list)
                 (selected s) g (scroll_offset w)\<rparr>)))"
    using assms by (simp add: loop_body_def Let_def split: prod.splits)
  then show ?thesis by (simp only: k stdin_render_grid) simp
qed

lemma wide_columns:
  "parse_options wide_env ''iv'' [Opt_c ''2147483647''] 4 w = Inr (2147483647, w)"
  by (simp add: wide_env_def Let_def)

lemma wide_key_l:
  "grid_key sample_list 2147483647 108 (viewer_at MODE_GRID 0) = viewer_at MODE_GRID 1"
  by (simp add: grid_key_l viewer_at_def sample_list_def to_int_def c_mod_def c_div_def)

lemma wide_key_j:
  "grid_key sample_list 2147483647 106 (viewer_at MODE_GRID 1)
     = viewer_at MODE_GRID (- 2147483648)"
  by (simp add: grid_key_j viewer_at_def sample_list_def to_int_def)

lemma wide_key_j_last:
  "grid_key sample_list 2147483647 106 (viewer_at MODE_GRID 9)
     = viewer_at MODE_GRID (- 2147483640)"
  by (simp add: grid_key_j viewer_at_def sample_list_def to_int_def)

text \<open>
  C3 fails in the program. The command line \<^verbatim>\<open>iv -c 2147483647\<close> with ten images sets
  the column count to the largest \<^verbatim>\<open>int\<close>, which lines 519--528 accept. The key \<open>l\<close>
  moves the selection from item 0 to item 1. Then the key \<open>j\<close> adds the column count:
  the sum \<open>1 + 2147483647\<close> wraps around to \<open>-2147483648\<close>, which is below the item
  count, so the test of line 597 lets the move through and \<open>selected\<close> becomes
  \<open>-2147483648\<close>, which is no index of the list. In the same way \<open>j\<close> on the last
  item, 9, is not without effect: it leaves \<open>-2147483640\<close>.
\<close>

theorem navigation_overflow:
  "parse_options wide_env ''iv'' [Opt_c ''2147483647''] 4 (initial_world ''lj'')
     = Inr (2147483647, initial_world ''lj'')
   \<and> int (length sample_list) = 10
   \<and> fst (loop_body wide_env sample_list 2147483647 (initial_viewer, initial_world ''lj''))
     = viewer_at MODE_GRID 1
   \<and> fst (loop_body wide_env sample_list 2147483647
        (loop_body wide_env sample_list 2147483647 (initial_viewer, initial_world ''lj'')))
     = viewer_at MODE_GRID (- 2147483648)
   \<and> grid_key sample_list 2147483647 (of_char (CHR ''j'')) (viewer_at MODE_GRID 1)
     = viewer_at MODE_GRID (- 2147483648)
   \<and> grid_key sample_list 2147483647 (of_char (CHR ''j'')) (viewer_at MODE_GRID 9)
     = viewer_at MODE_GRID (- 2147483640)"
proof -
  let ?turn = "loop_body wide_env sample_list 2147483647"
  have v: "initial_viewer = viewer_at MODE_GRID 0"
    by (simp add: initial_viewer_def viewer_at_def)
  have m: "mode (viewer_at MODE_GRID i) = MODE_GRID" for i by (simp add: viewer_at_def)
  have a: "fst (?turn (initial_viewer, initial_world ''lj'')) = viewer_at MODE_GRID 1"
    unfolding v by (simp add: loop_body_grid_key [OF m] key_cases initial_world_def wide_key_l)
  have b: "stdin (snd (?turn (initial_viewer, initial_world ''lj''))) = ''j''"
    unfolding v by (simp add: loop_body_grid_stdin [OF m] initial_world_def)
  obtain s1 w1 where sw: "?turn (initial_viewer, initial_world ''lj'') = (s1, w1)"
    by (cases "?turn (initial_viewer, initial_world ''lj'')")
  have s1: "s1 = viewer_at MODE_GRID 1" and w1: "stdin w1 = ''j''"
    using a b by (simp_all add: sw)
  have c: "fst (?turn (?turn (initial_viewer, initial_world ''lj'')))
      = viewer_at MODE_GRID (- 2147483648)"
    unfolding sw s1 by (simp add: loop_body_grid_key [OF m] key_cases w1 wide_key_j)
  have n: "int (length sample_list) = 10" by (simp add: sample_list_def)
  have j: "of_char (CHR ''j'') = (106::int)" by simp
  show ?thesis
    using a c n wide_columns [of "initial_world ''lj''"] wide_key_j wide_key_j_last
    by (simp only: j simp_thms)
qed

subsection \<open>The focus view\<close>


lemma generate_focus_state:
  "stdin (snd (generate_focus e p w)) = stdin w
   \<and> stdout (snd (generate_focus e p w)) = stdout w
   \<and> scroll_offset (snd (generate_focus e p w)) = scroll_offset w
   \<and> raw_mode (snd (generate_focus e p w)) = raw_mode w
   \<and> removed (snd (generate_focus e p w)) = removed w"
  by (simp add: generate_focus_def Let_def print_err_def)

lemma generate_focus_fails:
  "fst (generate_focus e p w) = None \<longleftrightarrow>
     shell e (magick_cmd p FOCUS_WIDTH FOCUS_HEIGHT
        (snprintf 4096 (TMP_DIR @ ''/iv_'' @ file_name p @ ''.focus.png''))) \<noteq> 0
     \<or> \<not> alloc_ok e
          (length (snprintf 4096 (TMP_DIR @ ''/iv_'' @ file_name p @ ''.focus.png'')) + 1)"
  by (simp add: generate_focus_def Let_def)

lemma focus_view_failed:
  assumes "fst (generate_focus e p w) = None"
  shows "focus_view e p w = snd (generate_focus e p w)"
  using assms by (cases "generate_focus e p w") (simp add: focus_view_def)



lemma loop_body_focus_state:
  "mode s = MODE_FOCUS \<Longrightarrow>
     snd (loop_body e list g (s, w)) = focus_view e (original_path (list ! nat (selected s))) w"
  by (simp add: loop_body_def Let_def)

text \<open>
  C10. When the focus image of the selected item cannot be generated, the turn of the
  loop in focus mode ends in grid mode with \<open>running\<close> and \<open>selected\<close> as they were;
  no byte of the input is read, nothing is written to the terminal, and the scroll
  offset is unchanged.
\<close>

theorem focus_generation_failure:
  assumes "mode s = MODE_FOCUS"
    and "fst (generate_focus e (original_path (list ! nat (selected s))) w) = None"
  shows "mode (fst (loop_body e list g (s, w))) = MODE_GRID
     \<and> running (fst (loop_body e list g (s, w))) = running s
     \<and> selected (fst (loop_body e list g (s, w))) = selected s
     \<and> stdin (snd (loop_body e list g (s, w))) = stdin w
     \<and> stdout (snd (loop_body e list g (s, w))) = stdout w
     \<and> scroll_offset (snd (loop_body e list g (s, w))) = scroll_offset w
     \<and> removed (snd (loop_body e list g (s, w))) = removed w"
  using generate_focus_state [of e "original_path (list ! nat (selected s))" w]
  by (simp add: loop_body_focus_viewer [OF assms(1)] loop_body_focus_state [OF assms(1)]
      focus_view_failed [OF assms(2)])

lemma failing_env_focus: "fst (generate_focus failing_env p w) = None"
  by (simp add: generate_focus_fails failing_env_def sample_env_def)

theorem focus_generation_failure_witness:
  "mode (viewer_at MODE_FOCUS 3) = MODE_FOCUS
   \<and> fst (generate_focus failing_env
        (original_path (sample_list ! nat (selected (viewer_at MODE_FOCUS 3))))
        (initial_world ''jq'')) = None
   \<and> fst (loop_body failing_env sample_list 4 (viewer_at MODE_FOCUS 3, initial_world ''jq''))
       = viewer_at MODE_GRID 3
   \<and> stdin (snd (loop_body failing_env sample_list 4
        (viewer_at MODE_FOCUS 3, initial_world ''jq''))) = ''jq''
   \<and> stdout (snd (loop_body failing_env sample_list 4
        (viewer_at MODE_FOCUS 3, initial_world ''jq''))) = []
   \<and> scroll_offset (snd (loop_body failing_env sample_list 4
        (viewer_at MODE_FOCUS 3, initial_world ''jq''))) = 0"
proof -
  have m: "mode (viewer_at MODE_FOCUS 3) = MODE_FOCUS" by (simp add: viewer_at_def)
  have f: "fst (generate_focus failing_env
        (original_path (sample_list ! nat (selected (viewer_at MODE_FOCUS 3))))
        (initial_world ''jq'')) = None" by (rule failing_env_focus)
  have v: "fst (loop_body failing_env sample_list 4 (viewer_at MODE_FOCUS 3, initial_world ''jq''))
       = viewer_at MODE_GRID 3"
    by (simp add: loop_body_focus_viewer [OF m]) (simp add: viewer_at_def)
  show ?thesis
    using focus_generation_failure [OF m f, of 4] m f v by (simp add: initial_world_def)
qed

subsection \<open>The two modes\<close>











subsection \<open>Ending before the viewer starts\<close>

lemma parse_options_accepts:
  "list_all is_Opt_c opts \<Longrightarrow> 1 \<le> g0 \<Longrightarrow>
     \<exists>g. parse_options e argv0 opts g0 w = Inr (g, w) \<and> 1 \<le> g"
proof (induction opts arbitrary: g0)
  case Nil
  then show ?case by simp
next
  case (Cons opt opts)
  then obtain optarg where o: "opt = Opt_c optarg" by (cases opt) simp_all
  have "1 \<le> (if atoi e optarg < 1 then 4 else atoi e optarg)" by simp
  from Cons.IH [OF _ this] Cons.prems(1) show ?case by (simp add: o Let_def)
qed

lemma parse_options_rejects:
  "\<not> list_all is_Opt_c opts \<Longrightarrow>
     \<exists>msg. parse_options e argv0 opts g0 w
       = Inl (EXIT_FAILURE, print_err (usage argv0) (print_err msg w))"
proof (induction opts arbitrary: g0)
  case Nil
  then show ?case by simp
next
  case (Cons opt opts)
  show ?case
  proof (cases opt)
    case (Opt_c optarg)
    with Cons show ?thesis by (simp add: Let_def)
  next
    case (Opt_other msg)
    then show ?thesis by auto
  qed
qed

lemma main_columns_positive:
  "parse_options e argv0 opts 4 w = Inr (g, w') \<Longrightarrow> 1 \<le> g"
proof (cases "list_all is_Opt_c opts")
  case True
  assume "parse_options e argv0 opts 4 w = Inr (g, w')"
  with parse_options_accepts [OF True, of 4 e argv0 w] show ?thesis by auto
next
  case False
  assume "parse_options e argv0 opts 4 w = Inr (g, w')"
  with parse_options_rejects [OF False, of e argv0 4 w] show ?thesis by auto
qed

lemma main_missing_argument:
  assumes "list_all is_Opt_c opts"
  shows "main e argv0 opts [] inp
     = (EXIT_FAILURE, (initial_world inp)\<lparr>stderr := usage argv0\<rparr>)"
proof -
  obtain g where "parse_options e argv0 opts 4 (initial_world inp) = Inr (g, initial_world inp)"
    using parse_options_accepts [OF assms, of 4 e argv0 "initial_world inp"] by auto
  then show ?thesis by (simp add: main_def print_err_def initial_world_def)
qed

lemma main_invalid_option:
  assumes "\<not> list_all is_Opt_c opts"
  shows "\<exists>msg. main e argv0 opts args inp
     = (EXIT_FAILURE, (initial_world inp)\<lparr>stderr := msg @ usage argv0\<rparr>)"
proof -
  obtain msg where "parse_options e argv0 opts 4 (initial_world inp)
       = Inl (EXIT_FAILURE, print_err (usage argv0) (print_err msg (initial_world inp)))"
    using parse_options_rejects [OF assms, of e argv0 4 "initial_world inp"] by auto
  then have "main e argv0 opts args inp
     = (EXIT_FAILURE, (initial_world inp)\<lparr>stderr := msg @ usage argv0\<rparr>)"
    by (simp add: main_def print_err_def initial_world_def)
  then show ?thesis ..
qed

lemma load_images_unreadable:
  assumes "stat_type e (hd args) = Some Directory" and "dir_entries e (hd args) = None"
  shows "load_images e args w
     = Inl (1, w\<lparr>stderr := stderr w @ ''opendir: '' @ errno_text e @ [NEWLINE]
                     @ ''Could not read directory.'' @ [NEWLINE]\<rparr>)"
  using assms
  by (simp add: load_images_def load_images_from_dir_def perror_def print_err_def)

lemma main_unreadable_directory:
  assumes "list_all is_Opt_c opts" and "args \<noteq> []"
    and "stat_type e (hd args) = Some Directory" and "dir_entries e (hd args) = None"
  shows "main e argv0 opts args inp
     = (1, (initial_world inp)\<lparr>stderr := ''opendir: '' @ errno_text e @ [NEWLINE]
                     @ ''Could not read directory.'' @ [NEWLINE]\<rparr>)"
proof -
  obtain g where "parse_options e argv0 opts 4 (initial_world inp) = Inr (g, initial_world inp)"
    using parse_options_accepts [OF assms(1), of 4 e argv0 "initial_world inp"] by auto
  then show ?thesis
    using assms(2) by (simp add: main_def load_images_unreadable [OF assms(3,4)] initial_world_def)
qed

lemma add_image_entry_state:
  "add_image_entry e list p w = Inr (list', w') \<Longrightarrow> w' = w"
  by (auto simp: add_image_entry_def split: if_splits)

lemma load_dir_entries_state:
  "load_dir_entries e d names list w = Inr (list', w') \<Longrightarrow> w' = w"
proof (induction names arbitrary: list)
  case Nil
  then show ?case by simp
next
  case (Cons n names)
  then show ?case
    by (auto simp: Let_def split: if_splits sum.splits dest: add_image_entry_state)
qed

lemma load_images_from_argv_state:
  "load_images_from_argv e paths list w = Inr (list', w') \<Longrightarrow> w' = w"
proof (induction paths arbitrary: list)
  case Nil
  then show ?case by simp
next
  case (Cons p paths)
  then show ?case by (auto split: sum.splits dest: add_image_entry_state)
qed

lemma load_images_state:
  "load_images e args w = Inr (list, w') \<Longrightarrow> w' = w"
  by (auto simp: load_images_def load_images_from_dir_def
      split: if_splits sum.splits option.splits
      dest: load_dir_entries_state load_images_from_argv_state)

lemma main_no_images:
  assumes "list_all is_Opt_c opts" and "args \<noteq> []"
    and "load_images e args (initial_world inp) = Inr ([], w)"
  shows "main e argv0 opts args inp
     = (1, (initial_world inp)\<lparr>stderr := ''No images found.'' @ [NEWLINE]\<rparr>)"
proof -
  obtain g where "parse_options e argv0 opts 4 (initial_world inp) = Inr (g, initial_world inp)"
    using parse_options_accepts [OF assms(1), of 4 e argv0 "initial_world inp"] by auto
  moreover have "w = initial_world inp" using assms(3) by (rule load_images_state)
  ultimately show ?thesis
    using assms(2,3) by (simp add: main_def print_err_def) (simp add: initial_world_def)
qed


text \<open>
  C9, as the program behaves. When no positional argument is left, the program writes
  the usage message to standard error, after what \<^verbatim>\<open>getopt\<close> wrote about an option it
  rejected, if there was one, and ends with status 1. When the first argument is a
  directory that cannot be opened, the program ends with status 1, and what it writes
  to standard error is the message of \<^verbatim>\<open>perror("opendir")\<close> and
  \<open>Could not read directory.\<close>, not the usage message; the usage message appears
  only when an option was rejected. When loading leaves the item list empty it writes
  \<open>No images found.\<close>, or the usage message when an option was rejected, and ends
  with status 1. In all three cases nothing is written to the terminal and raw mode is
  never entered.
\<close>

theorem startup_errors:
  "(args = [] \<longrightarrow>
      (\<exists>msg. main e argv0 opts args inp
         = (EXIT_FAILURE, (initial_world inp)\<lparr>stderr := msg @ usage argv0\<rparr>)))
   \<and> (args = [] \<and> list_all is_Opt_c opts \<longrightarrow>
        main e argv0 opts args inp
          = (EXIT_FAILURE, (initial_world inp)\<lparr>stderr := usage argv0\<rparr>))
   \<and> (args \<noteq> [] \<and> stat_type e (hd args) = Some Directory \<and> dir_entries e (hd args) = None
        \<longrightarrow>
          (list_all is_Opt_c opts \<longrightarrow>
             main e argv0 opts args inp
               = (1, (initial_world inp)\<lparr>stderr := ''opendir: '' @ errno_text e @ [NEWLINE]
                     @ ''Could not read directory.'' @ [NEWLINE]\<rparr>))
        \<and> (\<not> list_all is_Opt_c opts \<longrightarrow>
             (\<exists>msg. main e argv0 opts args inp
                = (EXIT_FAILURE, (initial_world inp)\<lparr>stderr := msg @ usage argv0\<rparr>))))
   \<and> (args \<noteq> [] \<and> (\<exists>w. load_images e args (initial_world inp) = Inr ([], w)) \<longrightarrow>
          (list_all is_Opt_c opts \<longrightarrow>
             main e argv0 opts args inp
               = (1, (initial_world inp)\<lparr>stderr := ''No images found.'' @ [NEWLINE]\<rparr>))
        \<and> (\<not> list_all is_Opt_c opts \<longrightarrow>
             (\<exists>msg. main e argv0 opts args inp
                = (EXIT_FAILURE, (initial_world inp)\<lparr>stderr := msg @ usage argv0\<rparr>))))
   \<and> EXIT_FAILURE \<noteq> 0
   \<and> stdout (initial_world inp) = [] \<and> \<not> raw_mode (initial_world inp)"
proof (intro conjI impI)
  assume a: "args = []"
  show "\<exists>msg. main e argv0 opts args inp
         = (EXIT_FAILURE, (initial_world inp)\<lparr>stderr := msg @ usage argv0\<rparr>)"
  proof (cases "list_all is_Opt_c opts")
    case True
    then have "main e argv0 opts args inp
         = (EXIT_FAILURE, (initial_world inp)\<lparr>stderr := [] @ usage argv0\<rparr>)"
      using main_missing_argument [of opts e argv0 inp] a by simp
    then show ?thesis ..
  next
    case False
    then show ?thesis by (rule main_invalid_option)
  qed
next
  assume "args = [] \<and> list_all is_Opt_c opts"
  then show "main e argv0 opts args inp
          = (EXIT_FAILURE, (initial_world inp)\<lparr>stderr := usage argv0\<rparr>)"
    using main_missing_argument [of opts e argv0 inp] by simp
next
  assume "args \<noteq> [] \<and> stat_type e (hd args) = Some Directory \<and> dir_entries e (hd args) = None"
    and "list_all is_Opt_c opts"
  then show "main e argv0 opts args inp
          = (1, (initial_world inp)\<lparr>stderr := ''opendir: '' @ errno_text e @ [NEWLINE]
                     @ ''Could not read directory.'' @ [NEWLINE]\<rparr>)"
    using main_unreadable_directory [of opts args e argv0 inp] by simp
next
  assume "args \<noteq> [] \<and> (\<exists>w. load_images e args (initial_world inp) = Inr ([], w))"
    and "list_all is_Opt_c opts"
  then show "main e argv0 opts args inp
          = (1, (initial_world inp)\<lparr>stderr := ''No images found.'' @ [NEWLINE]\<rparr>)"
    using main_no_images [of opts args e inp _ argv0] by blast
next
  assume "\<not> list_all is_Opt_c opts"
  then show "\<exists>msg. main e argv0 opts args inp
         = (EXIT_FAILURE, (initial_world inp)\<lparr>stderr := msg @ usage argv0\<rparr>)"
    by (rule main_invalid_option)
next
  assume "\<not> list_all is_Opt_c opts"
  then show "\<exists>msg. main e argv0 opts args inp
         = (EXIT_FAILURE, (initial_world inp)\<lparr>stderr := msg @ usage argv0\<rparr>)"
    by (rule main_invalid_option)
qed (simp_all add: EXIT_FAILURE_def initial_world_def)

lemma locked_run:
  "main locked_env ''iv'' [] [''pics''] []
     = (1, (initial_world [])\<lparr>stderr := ''opendir: Permission denied'' @ [NEWLINE]
                     @ ''Could not read directory.'' @ [NEWLINE]\<rparr>)"
  using main_unreadable_directory [of "[]" "[''pics'']" locked_env "''iv''" "[]"]
  by (simp add: locked_env_def sample_env_def)

text \<open>
  C9 as it is stated fails for a directory that cannot be opened: the text on standard
  error is not the usage message and does not contain it.
\<close>

theorem usage_on_unreadable_directory_counterexample:
  "stat_type locked_env ''pics'' = Some Directory
   \<and> dir_entries locked_env ''pics'' = None
   \<and> fst (main locked_env ''iv'' [] [''pics''] []) = 1
   \<and> stderr (snd (main locked_env ''iv'' [] [''pics''] []))
       = ''opendir: Permission denied'' @ [NEWLINE] @ ''Could not read directory.'' @ [NEWLINE]
   \<and> \<not> contains (usage ''iv'') (stderr (snd (main locked_env ''iv'' [] [''pics''] [])))
   \<and> \<not> contains ''Usage'' (stderr (snd (main locked_env ''iv'' [] [''pics''] [])))"
  by (simp only: locked_run) (simp add: locked_env_def sample_env_def usage_def NEWLINE_def)

lemma sample_empty_directory:
  "load_images sample_env [''pics''] w = Inr ([], w)"
  by (simp add: load_images_def load_images_from_dir_def sample_env_def)

lemma sample_bad_option:
  "main sample_env ''iv'' [Opt_other ''iv: invalid option -- x''] args ''q''
     = (EXIT_FAILURE,
        (initial_world ''q'')\<lparr>stderr := ''iv: invalid option -- x'' @ usage ''iv''\<rparr>)"
  by (simp add: main_def print_err_def initial_world_def)

theorem startup_errors_witness:
  "(\<exists>msg. main sample_env ''iv'' [Opt_other ''iv: invalid option -- x''] [] ''q''
       = (EXIT_FAILURE, (initial_world ''q'')\<lparr>stderr := msg @ usage ''iv''\<rparr>))
   \<and> main sample_env ''iv'' [Opt_other ''iv: invalid option -- x''] [] ''q''
       = (EXIT_FAILURE,
          (initial_world ''q'')\<lparr>stderr := ''iv: invalid option -- x'' @ usage ''iv''\<rparr>)
   \<and> list_all is_Opt_c [Opt_c ''4'']
   \<and> main sample_env ''iv'' [Opt_c ''4''] [] ''q''
       = (EXIT_FAILURE, (initial_world ''q'')\<lparr>stderr := usage ''iv''\<rparr>)
   \<and> [''pics''] \<noteq> []
   \<and> stat_type locked_env (hd [''pics'']) = Some Directory
   \<and> dir_entries locked_env (hd [''pics'']) = None
   \<and> main locked_env ''iv'' [Opt_c ''4''] [''pics''] ''q''
       = (1, (initial_world ''q'')\<lparr>stderr := ''opendir: '' @ errno_text locked_env @ [NEWLINE]
                     @ ''Could not read directory.'' @ [NEWLINE]\<rparr>)
   \<and> \<not> list_all is_Opt_c [Opt_other ''iv: invalid option -- x'']
   \<and> (\<exists>msg. main locked_env ''iv'' [Opt_other ''iv: invalid option -- x''] [''pics''] ''q''
       = (EXIT_FAILURE, (initial_world ''q'')\<lparr>stderr := msg @ usage ''iv''\<rparr>))
   \<and> (\<exists>w. load_images sample_env [''pics''] (initial_world ''q'') = Inr ([], w))
   \<and> main sample_env ''iv'' [Opt_c ''4''] [''pics''] ''q''
       = (1, (initial_world ''q'')\<lparr>stderr := ''No images found.'' @ [NEWLINE]\<rparr>)
   \<and> (\<exists>msg. main sample_env ''iv'' [Opt_other ''iv: invalid option -- x''] [''pics''] ''q''
       = (EXIT_FAILURE, (initial_world ''q'')\<lparr>stderr := msg @ usage ''iv''\<rparr>))"
proof -
  let ?bad = "[Opt_other ''iv: invalid option -- x'']"
  have o: "list_all is_Opt_c [Opt_c ''4'']" by simp
  have n: "\<not> list_all is_Opt_c ?bad" by simp
  have d: "[''pics''] \<noteq> [] \<and> stat_type locked_env (hd [''pics'']) = Some Directory
      \<and> dir_entries locked_env (hd [''pics'']) = None"
    by (simp add: locked_env_def sample_env_def)
  have l: "[''pics''] \<noteq> []
      \<and> (\<exists>w. load_images sample_env [''pics''] (initial_world ''q'') = Inr ([], w))"
    by (simp add: sample_empty_directory)
  note a = startup_errors [of "[]" sample_env "''iv''" ?bad "''q''", THEN conjunct1, THEN mp,
      OF refl]
  note a' = startup_errors [of "[]" sample_env "''iv''" "[Opt_c ''4'']" "''q''",
      THEN conjunct2, THEN conjunct1, THEN mp, OF conjI [OF refl o]]
  note dir = startup_errors [of "[''pics'']" locked_env "''iv''" _ "''q''", THEN conjunct2,
      THEN conjunct2, THEN conjunct1, THEN mp, OF d]
  note b = dir [of "[Opt_c ''4'']", THEN conjunct1, THEN mp, OF o]
  note b' = dir [of ?bad, THEN conjunct2, THEN mp, OF n]
  note emp = startup_errors [of "[''pics'']" sample_env "''iv''" _ "''q''", THEN conjunct2,
      THEN conjunct2, THEN conjunct2, THEN conjunct1, THEN mp, OF l]
  note c = emp [of "[Opt_c ''4'']", THEN conjunct1, THEN mp, OF o]
  note c' = emp [of ?bad, THEN conjunct2, THEN mp, OF n]
  show ?thesis
    using a a' b b' c c' o n d l sample_bad_option [of "[]"] by (simp only: simp_thms)
qed

subsection \<open>The values stay in the range of \<^verbatim>\<open>int\<close>\<close>

text \<open>
  With at most \<open>2^31 - 1\<close> items minus the rows of the largest terminal, a valid
  selection, a terminal of at most 65535 rows (\<^verbatim>\<open>ws_row\<close> is an
  \<^verbatim>\<open>unsigned short\<close>) and an offset that an earlier call left (between 0 and the
  number of rows), every value that \<open>adjust_scroll_for_selection\<close> computes lies in the
  range of a 32-bit \<^verbatim>\<open>int\<close>, so that the sums and differences of the scroll offset in
  the model are those of the program.
\<close>

lemma visible_rows_bound:
  assumes "rows_of tty \<le> 65535"
  shows "visible_rows_of tty \<le> 10922"
proof -
  have "rows_of tty div 6 \<le> 65535 div 6" using assms by (rule zdiv_mono1) simp
  then show ?thesis
    using rows_of_nonneg [of tty]
    by (simp add: visible_rows_of_def Let_def THUMB_ROWS_def SPACING_ROWS_def c_div_nonneg)
qed

lemma rows_bound:
  assumes "0 < grid_cols"
  shows "0 \<le> (int count + grid_cols - 1) div grid_cols
     \<and> (int count + grid_cols - 1) div grid_cols \<le> int count"
proof -
  have "(int count + grid_cols - 1) div grid_cols \<le> (int count * grid_cols) div grid_cols"
  proof (cases "count = 0")
    case True
    then show ?thesis using assms by simp
  next
    case False
    then have "0 \<le> (int count - 1) * (grid_cols - 1)"
      using assms by (intro mult_nonneg_nonneg) simp_all
    then have "int count + grid_cols - 1 \<le> int count * grid_cols"
      by (simp add: algebra_simps)
    then show ?thesis by (rule zdiv_mono1) (rule assms)
  qed
  moreover have "0 \<le> (int count + grid_cols - 1) div grid_cols"
    using assms by (simp add: pos_imp_zdiv_nonneg_iff)
  ultimately show ?thesis using assms by simp
qed

lemma total_rows_bound:
  assumes "0 < grid_cols" and "grid_cols \<le> INT_MAX" and "int count \<le> INT_MAX"
  shows "total_rows_of count grid_cols = spec_total_rows count grid_cols
     \<and> 0 \<le> total_rows_of count grid_cols \<and> total_rows_of count grid_cols \<le> int count"
proof -
  note b = rows_bound [OF assms(1), of count]
  have "(int count + grid_cols - 1) div grid_cols \<le> INT_MAX" using b assms(3) by simp
  then have e: "total_rows_of count grid_cols = (int count + grid_cols - 1) div grid_cols"
    by (rule total_rows_exact [OF assms(1,2)])
  show ?thesis
    unfolding e using b by (simp add: spec_total_rows_def rows_ceiling [OF assms(1)])
qed

lemma adjust_scroll_in_int_range:
  assumes "0 < grid_cols" and "grid_cols \<le> INT_MAX"
    and "0 \<le> sel" and "sel < int count" and "int count \<le> INT_MAX - 10922"
    and "rows_of tty \<le> 65535"
    and "0 \<le> so" and "so \<le> total_rows_of count grid_cols"
  shows "\<forall>x \<in> {total_rows_of count grid_cols,
            c_div sel grid_cols, so + visible_rows_of tty,
            c_div sel grid_cols - visible_rows_of tty + 1,
            total_rows_of count grid_cols - visible_rows_of tty,
            scroll_into_view (c_div sel grid_cols) (visible_rows_of tty) so,
            adjust_scroll_for_selection tty count sel grid_cols so}.
           - INT_MAX - 1 \<le> x \<and> x \<le> INT_MAX"
proof -
  let ?V = "visible_rows_of tty"
  let ?T = "total_rows_of count grid_cols"
  let ?r = "c_div sel grid_cols"
  have c: "int count \<le> INT_MAX" using assms(5) by simp
  have V: "1 \<le> ?V" "?V \<le> 10922"
    using visible_rows_pos [of tty] visible_rows_bound [OF assms(6)] by simp_all
  have T: "?T = spec_total_rows count grid_cols" "0 \<le> ?T" "?T \<le> int count"
    using total_rows_bound [OF assms(1,2) c] by simp_all
  have r: "0 \<le> ?r" "?r < ?T"
    using assms(1,3) sel_row_below_total [OF assms(1,3,4)] T(1)
    by (simp_all add: c_div_nonneg pos_imp_zdiv_nonneg_iff)
  have s: "- 10922 \<le> scroll_into_view ?r ?V so" "scroll_into_view ?r ?V so \<le> int count"
    using V T r assms(7,8) by (auto simp: scroll_into_view_def)
  have f: "spec_total_rows count grid_cols \<le> INT_MAX" using T c by simp
  have a: "0 \<le> adjust_scroll_for_selection tty count sel grid_cols so"
    "adjust_scroll_for_selection tty count sel grid_cols so \<le> int count"
    using adjust_scroll_window [OF assms(1,2) f assms(3,4), of tty so] T V by auto
  show ?thesis
    using V T r s a assms(5,7,8) by (simp add: INT_MAX_def)
qed

end
